theory Spec2Isabelle
  imports Main "HOL-Library.AList"
begin

chapter \<open>The program\<close>

section \<open>JavaScript strings\<close>

text \<open>
  A JavaScript string is modelled as a \<^typ>\<open>string\<close>: a list of code units below 256.
  The operations below are the methods of \<open>String.prototype\<close> that \<open>src/index.ts\<close> calls.
\<close>

definition startsWith :: "string \<Rightarrow> string \<Rightarrow> bool" where
  "startsWith s p = (take (length p) s = p)"

definition endsWith :: "string \<Rightarrow> string \<Rightarrow> bool" where
  "endsWith s p = (length p \<le> length s \<and> drop (length s - length p) s = p)"

text \<open>\<open>s.split(c)\<close> for a one-character separator: never empty, \<open>"".split("/")\<close> is \<open>[""]\<close>.\<close>

fun split_on :: "char \<Rightarrow> string \<Rightarrow> string list" where
  "split_on c [] = [[]]"
| "split_on c (x # xs) =
     (if x = c then [] # split_on c xs
      else (case split_on c xs of [] \<Rightarrow> [[x]] | w # ws \<Rightarrow> (x # w) # ws))"

text \<open>\<open>xs.join(sep)\<close> on an array of strings.\<close>

fun js_join :: "string \<Rightarrow> string list \<Rightarrow> string" where
  "js_join sep [] = []"
| "js_join sep [x] = x"
| "js_join sep (x # y # ys) = x @ sep @ js_join sep (y # ys)"

text \<open>\<open>xs[i]\<close>: \<open>undefined\<close> (here \<open>None\<close>) out of range.\<close>

definition js_index :: "'a list \<Rightarrow> nat \<Rightarrow> 'a option" where
  "js_index xs i = (if i < length xs then Some (xs ! i) else None)"

text \<open>
  White space and line terminators that \<open>trim()\<close> removes, among the code units below 256:
  tab, line feed, vertical tab, form feed, carriage return, space, no-break space.
\<close>

definition is_space :: "char \<Rightarrow> bool" where
  "is_space c = (c \<in> {CHR 0x09, CHR 0x0A, CHR 0x0B, CHR 0x0C, CHR 0x0D, CHR 0x20, CHR 0xA0})"

definition js_trim :: "string \<Rightarrow> string" where
  "js_trim s = rev (dropWhile is_space (rev (dropWhile is_space s)))"

definition is_digit :: "char \<Rightarrow> bool" where
  "is_digit c = (c \<in> set ''0123456789'')"

definition is_letter :: "char \<Rightarrow> bool" where
  "is_letter c = (c \<in> set ''abcdefghijklmnopqrstuvwxyzABCDEFGHIJKLMNOPQRSTUVWXYZ'')"

text \<open>The regular-expression class \<open>\w\<close>.\<close>

definition is_word_char :: "char \<Rightarrow> bool" where
  "is_word_char c = (is_letter c \<or> is_digit c \<or> c = CHR ''_'')"


section \<open>JavaScript values\<close>

text \<open>
  The values that a YAML header parses to: \<open>undefined\<close>, \<open>null\<close>, booleans, numbers, strings,
  arrays and plain objects. A number is an integer here (of magnitude below \<open>2^53\<close>, where
  \<open>String\<close> prints all its digits); fractions, \<open>NaN\<close>, infinities and \<open>Date\<close> objects are
  left out.
\<close>

datatype jsval =
    JUndefined
  | JNull
  | JBool bool
  | JNum int
  | JStr string
  | JArr "jsval list"
  | JObj "(string \<times> jsval) list"

fun js_truthy :: "jsval \<Rightarrow> bool" where
  "js_truthy JUndefined = False"
| "js_truthy JNull = False"
| "js_truthy (JBool b) = b"
| "js_truthy (JNum n) = (n \<noteq> 0)"
| "js_truthy (JStr s) = (s \<noteq> [])"
| "js_truthy (JArr xs) = True"
| "js_truthy (JObj kvs) = True"

fun js_typeof :: "jsval \<Rightarrow> string" where
  "js_typeof JUndefined = ''undefined''"
| "js_typeof JNull = ''object''"
| "js_typeof (JBool b) = ''boolean''"
| "js_typeof (JNum n) = ''number''"
| "js_typeof (JStr s) = ''string''"
| "js_typeof (JArr xs) = ''object''"
| "js_typeof (JObj kvs) = ''object''"

text \<open>\<open>Array.isArray(v)\<close>\<close>

definition isArray :: "jsval \<Rightarrow> bool" where
  "isArray v = (case v of JArr xs \<Rightarrow> True | _ \<Rightarrow> False)"

text \<open>\<open>a || b\<close>\<close>

definition js_or :: "jsval \<Rightarrow> jsval \<Rightarrow> jsval" where
  "js_or a b = (if js_truthy a then a else b)"

text \<open>
  \<open>v.key\<close> (and \<open>v?.key\<close> on \<open>null\<close>) for the keys the program reads, \<open>name\<close>, \<open>description\<close>,
  \<open>metadata\<close> and \<open>version\<close>: an own property of a plain object, \<open>undefined\<close> otherwise.
\<close>

fun js_get :: "jsval \<Rightarrow> string \<Rightarrow> jsval" where
  "js_get (JObj kvs) key = (case map_of kvs key of Some v \<Rightarrow> v | None \<Rightarrow> JUndefined)"
| "js_get v key = JUndefined"

text \<open>\<open>String(n)\<close> for an integer: its decimal digits, after a minus sign when negative.\<close>

fun decimal :: "nat \<Rightarrow> string" where
  "decimal n =
     (if n < 10 then [''0123456789'' ! n]
      else decimal (n div 10) @ [''0123456789'' ! (n mod 10)])"

definition number_text :: "int \<Rightarrow> string" where
  "number_text n = (if 0 \<le> n then decimal (nat n) else CHR ''-'' # decimal (nat (- n)))"

text \<open>
  \<open>String(v)\<close>. An array prints its elements separated by commas, \<open>null\<close> and \<open>undefined\<close>
  elements as nothing; a plain object prints as \<open>[object Object]\<close>.
\<close>

fun js_String :: "jsval \<Rightarrow> string" where
  "js_String JUndefined = ''undefined''"
| "js_String JNull = ''null''"
| "js_String (JBool b) = (if b then ''true'' else ''false'')"
| "js_String (JNum n) = number_text n"
| "js_String (JStr s) = s"
| "js_String (JArr xs) =
     js_join '','' (map (\<lambda>x. if x = JUndefined \<or> x = JNull then [] else js_String x) xs)"
| "js_String (JObj kvs) = ''[object Object]''"


section \<open>The \<open>semver\<close> package: \<open>semver.valid\<close>\<close>

text \<open>
  \<open>semver.valid(version)\<close> of the npm package \<open>semver\<close> is \<open>null\<close> unless \<open>new SemVer(version)\<close>
  succeeds, which for a string and no options requires: at most \<open>MAX_LENGTH = 256\<close> characters;
  the trimmed string matches the package's regular expression \<open>FULL\<close>,
  \<^verbatim>\<open>^v?(N)\.(N)\.(N)(?:-(P(?:\.P)*))?(?:\+(B(?:\.B)*))?$\<close> with
  \<^verbatim>\<open>N = 0|[1-9]\d*\<close>, \<^verbatim>\<open>P = \d*[a-zA-Z-][a-zA-Z0-9-]*|0|[1-9]\d*\<close> and \<^verbatim>\<open>B = [a-zA-Z0-9-]+\<close>;
  and none of the three numbers exceeds \<open>MAX_SAFE_INTEGER\<close>. Otherwise it returns the
  version, a non-empty string. \<open>semver_valid\<close> is the truth value of that result.
\<close>

definition is_idchar :: "char \<Rightarrow> bool" where
  "is_idchar c = (is_letter c \<or> is_digit c \<or> c = CHR ''-'')"

definition numeric_identifier :: "string \<Rightarrow> bool" where
  "numeric_identifier s =
     (case s of [] \<Rightarrow> False
      | c # cs \<Rightarrow> list_all is_digit (c # cs) \<and> (if c = CHR ''0'' then cs = [] else True))"

definition prerelease_identifier :: "string \<Rightarrow> bool" where
  "prerelease_identifier s =
     (s \<noteq> [] \<and> list_all is_idchar s \<and>
      (list_ex (\<lambda>c. is_letter c \<or> c = CHR ''-'') s \<or> numeric_identifier s))"

definition build_identifier :: "string \<Rightarrow> bool" where
  "build_identifier s = (s \<noteq> [] \<and> list_all is_idchar s)"

definition int_of_digits :: "string \<Rightarrow> int" where
  "int_of_digits s = foldl (\<lambda>n c. 10 * n + (of_char c - 48)) 0 s"

definition MAX_SAFE_INTEGER :: int where
  "MAX_SAFE_INTEGER = 9007199254740991"

definition MAX_LENGTH :: nat where
  "MAX_LENGTH = 256"

text \<open>
  A string matches \<open>FULL\<close> when, one leading \<open>v\<close> apart, the part after the first \<open>+\<close> (if
  any) is build identifiers separated by dots, the part between the first \<open>-\<close> and that
  \<open>+\<close> (if any) is pre-release identifiers separated by dots, and what remains is three
  numeric identifiers separated by dots.
\<close>

definition main_version :: "string \<Rightarrow> bool" where
  "main_version s =
     (case split_on CHR ''.'' s of
        [a, b, c] \<Rightarrow>
          numeric_identifier a \<and> numeric_identifier b \<and> numeric_identifier c \<and>
          int_of_digits a \<le> MAX_SAFE_INTEGER \<and> int_of_digits b \<le> MAX_SAFE_INTEGER \<and>
          int_of_digits c \<le> MAX_SAFE_INTEGER
      | _ \<Rightarrow> False)"

definition full_version :: "string \<Rightarrow> bool" where
  "full_version s =
     (let s1 = (case s of [] \<Rightarrow> [] | c # cs \<Rightarrow> if c = CHR ''v'' then cs else c # cs);
          before_plus = takeWhile (\<lambda>c. c \<noteq> CHR ''+'') s1;
          from_plus = dropWhile (\<lambda>c. c \<noteq> CHR ''+'') s1;
          main = takeWhile (\<lambda>c. c \<noteq> CHR ''-'') before_plus;
          from_hyphen = dropWhile (\<lambda>c. c \<noteq> CHR ''-'') before_plus
      in main_version main \<and>
         (from_hyphen = [] \<or> list_all prerelease_identifier (split_on CHR ''.'' (tl from_hyphen))) \<and>
         (from_plus = [] \<or> list_all build_identifier (split_on CHR ''.'' (tl from_plus))))"

definition semver_valid :: "string \<Rightarrow> bool" where
  "semver_valid version = (length version \<le> MAX_LENGTH \<and> full_version (js_trim version))"


section \<open>The \<open>node:path\<close> module (POSIX flavour)\<close>

text \<open>
  \<open>normalizeString(path, allowAboveRoot)\<close> of Node's \<open>path\<close> module walks the characters of
  \<open>path\<close>; segment by segment it does the following: an empty segment and \<open>.\<close> are dropped,
  \<open>..\<close> removes the last kept segment unless there is none or it is \<open>..\<close> itself, in which
  case \<open>..\<close> is kept when \<open>allowAboveRoot\<close> holds and dropped otherwise.
\<close>

definition normalize_step :: "bool \<Rightarrow> string list \<Rightarrow> string \<Rightarrow> string list" where
  "normalize_step allowAboveRoot res seg =
     (if seg = [] \<or> seg = ''.'' then res
      else if seg = ''..'' then
        (if res \<noteq> [] \<and> last res \<noteq> ''..'' then butlast res
         else if allowAboveRoot then res @ [''..'']
         else res)
      else res @ [seg])"

definition normalize_segments :: "bool \<Rightarrow> string list \<Rightarrow> string list" where
  "normalize_segments allowAboveRoot segs = foldl (normalize_step allowAboveRoot) [] segs"

definition normalizeString :: "string \<Rightarrow> bool \<Rightarrow> string" where
  "normalizeString path allowAboveRoot =
     js_join ''/'' (normalize_segments allowAboveRoot (split_on CHR ''/'' path))"

definition isAbsolute :: "string \<Rightarrow> bool" where
  "isAbsolute path = (case path of [] \<Rightarrow> False | c # _ \<Rightarrow> c = CHR ''/'')"

definition path_normalize :: "string \<Rightarrow> string" where
  "path_normalize path =
     (if path = [] then ''.''
      else
        let trailingSeparator = (last path = CHR ''/'');
            p = normalizeString path (\<not> isAbsolute path)
        in if p = [] then (if isAbsolute path then ''/'' else if trailingSeparator then ''./'' else ''.'')
           else
             let p' = (if trailingSeparator then p @ ''/'' else p)
             in if isAbsolute path then ''/'' @ p' else p')"

text \<open>\<open>path.join(...args)\<close>: the non-empty arguments, joined by \<open>/\<close>, normalised.\<close>

definition path_join :: "string list \<Rightarrow> string" where
  "path_join args =
     (case filter (\<lambda>a. a \<noteq> []) args of
        [] \<Rightarrow> ''.''
      | joined \<Rightarrow> path_normalize (js_join ''/'' joined))"

text \<open>
  \<open>path.resolve(p)\<close> with one argument, \<open>cwd\<close> being \<open>process.cwd()\<close>: the arguments are
  prepended right to left, the working directory last, until the path is absolute.
\<close>

definition path_resolve :: "string \<Rightarrow> string \<Rightarrow> string" where
  "path_resolve cwd p =
     (let r1 = (if p = [] then [] else p @ ''/'');
          abs1 = (p \<noteq> [] \<and> isAbsolute p);
          r2 = (if abs1 \<or> cwd = [] then r1 else cwd @ ''/'' @ r1);
          abs2 = (abs1 \<or> (cwd \<noteq> [] \<and> isAbsolute cwd));
          resolvedPath = normalizeString r2 (\<not> abs2)
      in if abs2 then ''/'' @ resolvedPath
         else if resolvedPath \<noteq> [] then resolvedPath else ''.'')"

text \<open>
  \<open>path.dirname(path)\<close>: scanning from the end down to index 1, trailing slashes are skipped,
  then the last segment; \<open>end\<close> is the index of the slash before it.
\<close>

definition path_dirname :: "string \<Rightarrow> string" where
  "path_dirname path =
     (if path = [] then ''.''
      else
        let hasRoot = (hd path = CHR ''/'');
            r = dropWhile (\<lambda>c. c \<noteq> CHR ''/'') (dropWhile (\<lambda>c. c = CHR ''/'') (rev (tl path)))
        in if r = [] then (if hasRoot then ''/'' else ''.'')
           else if hasRoot \<and> length r = 1 then ''//''
           else take (length r) path)"

text \<open>\<open>path.basename(path)\<close>: the last segment, trailing slashes apart.\<close>

definition path_basename :: "string \<Rightarrow> string" where
  "path_basename path =
     rev (takeWhile (\<lambda>c. c \<noteq> CHR ''/'') (dropWhile (\<lambda>c. c = CHR ''/'') (rev path)))"


section \<open>Data model\<close>

record InstallOptions =
  skillPath :: "string option"
  subdir :: "string option"
  ref :: "string option"
  destinationProjectPath :: "string option"
  force :: bool
  merge :: bool

record InstallTarget =
  label :: string
  baseDir :: string

record RepoSpec =
  repoUrl :: string
  repoRef :: "string option"
  repoSubdir :: "string option"

text \<open>The two properties of a \<open>URL\<close> object that the program reads.\<close>

record URL =
  hostname :: string
  pathname :: string

text \<open>
  The process environment that the program reads: \<open>process.cwd()\<close>, \<open>os.homedir()\<close>,
  \<open>os.tmpdir()\<close> and \<open>process.env.CODEX_HOME\<close>.
\<close>

record process =
  cwd :: string
  homedir :: string
  tmpdir :: string
  CODEX_HOME :: "string option"

text \<open>
  The constructor \<open>new URL(input)\<close> belongs to the runtime, not to the program: the functions
  that call it take it as the parameter \<open>new_URL\<close>, a function to \<^typ>\<open>URL option\<close> that is
  \<open>None\<close> when the constructor throws.

  \<open>plain_URL\<close> stands in for it at concrete inputs. It agrees with the runtime's parser on
  plain inputs: \<open>http://\<close> or \<open>https://\<close>, then a host of lower-case letters, digits, dots and
  hyphens that is no number, then a path of unreserved characters and slashes without dot
  segments. It agrees as well where the host is empty and nothing follows (\<open>http://\<close>,
  \<open>https://\<close>): the runtime's parser throws. No statement relies on it elsewhere.
\<close>

definition plain_URL :: "string \<Rightarrow> URL option" where
  "plain_URL input =
     (let rest = (if startsWith input ''https://'' then Some (drop 8 input)
                  else if startsWith input ''http://'' then Some (drop 7 input)
                  else None)
      in case rest of
           None \<Rightarrow> None
         | Some r \<Rightarrow>
             let host = takeWhile (\<lambda>c. c \<notin> set ''/?#'') r;
                 path = takeWhile (\<lambda>c. c \<notin> set ''?#'') (dropWhile (\<lambda>c. c \<notin> set ''/?#'') r)
             in if host = [] then None
                else Some \<lparr>hostname = host, pathname = (if path = [] then ''/'' else path)\<rparr>)"


section \<open>Repository specifications\<close>

text \<open>The regular expression \<open>/^[\w.-]+\/[\w.-]+$/\<close>.\<close>

definition is_name_char :: "char \<Rightarrow> bool" where
  "is_name_char c = (is_word_char c \<or> c = CHR ''.'' \<or> c = CHR ''-'')"

definition owner_repo_shorthand :: "string \<Rightarrow> bool" where
  "owner_repo_shorthand input =
     (case split_on CHR ''/'' input of
        [a, b] \<Rightarrow> a \<noteq> [] \<and> b \<noteq> [] \<and> list_all is_name_char a \<and> list_all is_name_char b
      | _ \<Rightarrow> False)"

definition isRepoLike :: "string \<Rightarrow> bool" where
  "isRepoLike input =
     (if input = [] then False
      else if startsWith input ''http://'' \<or> startsWith input ''https://'' then True
      else if endsWith input ''.git'' then True
      else owner_repo_shorthand input)"

definition parseGitHubUrl :: "URL \<Rightarrow> RepoSpec option" where
  "parseGitHubUrl url =
     (let segments = split_on CHR ''/''
            (case pathname url of [] \<Rightarrow> [] | c # cs \<Rightarrow> if c = CHR ''/'' then cs else c # cs)
      in if length segments < 2 then None
         else
           let owner = segments ! 0;
               repo = segments ! 1;
               tree_or_blob = (js_index segments 2 = Some ''tree'' \<or> js_index segments 2 = Some ''blob'');
               joined = js_join ''/'' (drop 4 segments)
           in Some \<lparr>repoUrl = ''https://github.com/'' @ owner @ ''/'' @ repo @ ''.git'',
                    repoRef = (if tree_or_blob then js_index segments 3 else None),
                    repoSubdir =
                      (if tree_or_blob
                       then Some (if joined \<noteq> [] \<and> endsWith joined ''SKILL.md''
                                  then path_dirname joined else joined)
                       else None)\<rparr>)"

definition parseRepoSpec :: "(string \<Rightarrow> URL option) \<Rightarrow> string \<Rightarrow> RepoSpec option" where
  "parseRepoSpec new_URL input =
     (if input = [] then None
      else if startsWith input ''http://'' \<or> startsWith input ''https://'' then
        (case new_URL input of
           None \<Rightarrow> None
         | Some url \<Rightarrow>
             (case (if hostname url = ''github.com'' then parseGitHubUrl url else None) of
                Some githubSpec \<Rightarrow> Some githubSpec
              | None \<Rightarrow> Some \<lparr>repoUrl = input, repoRef = None, repoSubdir = None\<rparr>))
      else if endsWith input ''.git'' then
        Some \<lparr>repoUrl = input, repoRef = None, repoSubdir = None\<rparr>
      else if owner_repo_shorthand input then
        Some \<lparr>repoUrl = ''https://github.com/'' @ input @ ''.git'', repoRef = None, repoSubdir = None\<rparr>
      else None)"


section \<open>Install targets\<close>

definition getInstallTargets :: "'a process_scheme \<Rightarrow> string option \<Rightarrow> InstallTarget list" where
  "getInstallTargets ps dest =
     (case (case dest of None \<Rightarrow> None | Some d \<Rightarrow> if d = [] then None else Some d) of
        Some d \<Rightarrow>
          let projectRoot = path_resolve (cwd ps) d
          in [\<lparr>label = ''codex-project'', baseDir = path_join [projectRoot, ''.codex'', ''skills'']\<rparr>,
              \<lparr>label = ''claude-project'', baseDir = path_join [projectRoot, ''.claude'', ''skills'']\<rparr>,
              \<lparr>label = ''gemini-project'', baseDir = path_join [projectRoot, ''.gemini'', ''skills'']\<rparr>]
      | None \<Rightarrow>
          let homeDir = homedir ps;
              codexHome = (case CODEX_HOME ps of
                             None \<Rightarrow> path_join [homeDir, ''.codex'']
                           | Some e \<Rightarrow> if e = [] then path_join [homeDir, ''.codex'']
                                       else path_resolve (cwd ps) e)
          in [\<lparr>label = ''codex-user'', baseDir = path_join [codexHome, ''skills'']\<rparr>,
              \<lparr>label = ''claude-user'', baseDir = path_join [homeDir, ''.claude'', ''skills'']\<rparr>,
              \<lparr>label = ''gemini-user'', baseDir = path_join [homeDir, ''.gemini'', ''skills'']\<rparr>])"

section \<open>Manifest validation\<close>

text \<open>
  What the program throws: \<open>new Error(message)\<close> of its own, or an error of the platform
  (a file-system call, the YAML parser, the prompt), named by its code.
\<close>

datatype error = Error string | SystemError string

text \<open>A field name between double quotes, as the messages print it.\<close>

definition quoted :: "string \<Rightarrow> string" where
  "quoted s = [CHR 0x22] @ s @ [CHR 0x22]"

definition validateFrontmatter :: "jsval \<Rightarrow> string \<Rightarrow> error + unit" where
  "validateFrontmatter frontmatter skillFile =
     (if \<not> js_truthy frontmatter \<or> js_typeof frontmatter \<noteq> ''object'' then
        Inl (Error (''Missing YAML frontmatter in '' @ skillFile))
      else
        let name = js_trim (js_String (js_or (js_get frontmatter ''name'') (JStr [])));
            description = js_trim (js_String (js_or (js_get frontmatter ''description'') (JStr [])));
            metadata = (if js_truthy (js_get frontmatter ''metadata'') \<and>
                           js_typeof (js_get frontmatter ''metadata'') = ''object''
                        then js_get frontmatter ''metadata'' else JNull);
            version = js_trim (js_String (js_or (js_get metadata ''version'') (JStr [])))
        in if name = [] then
             Inl (Error (''Missing required frontmatter field '' @ quoted ''name'' @ '' in '' @ skillFile))
           else if description = [] then
             Inl (Error (''Missing required frontmatter field '' @ quoted ''description'' @ '' in ''
                          @ skillFile))
           else if version = [] then
             Inl (Error (''Missing required frontmatter field '' @ quoted ''metadata.version'' @ '' in ''
                          @ skillFile))
           else if \<not> semver_valid version then
             Inl (Error (''Invalid semver '' @ quoted ''metadata.version'' @ '' in '' @ skillFile @ '': ''
                          @ version))
           else Inr ())"

text \<open>
  Two abbreviations for the statements about the validator: the text the validator judges a
  field by, \<open>String(v || "").trim()\<close>, and the value it reads as \<open>metadata.version\<close>, which is
  \<open>undefined\<close> unless \<open>metadata\<close> is an object.
\<close>

definition field_text :: "jsval \<Rightarrow> string" where
  "field_text v = js_trim (js_String (js_or v (JStr [])))"

definition metadata_version :: "jsval \<Rightarrow> jsval" where
  "metadata_version frontmatter =
     (case js_get frontmatter ''metadata'' of
        JObj m \<Rightarrow> js_get (JObj m) ''version''
      | _ \<Rightarrow> JUndefined)"

text \<open>A manifest header with the three required fields, for concrete inputs.\<close>

definition manifest :: "jsval \<Rightarrow> jsval \<Rightarrow> jsval \<Rightarrow> jsval" where
  "manifest n d v = JObj [(''name'', n), (''description'', d), (''metadata'', JObj [(''version'', v)])]"

section \<open>Manifest validation in the words of the specification\<close>

text \<open>
  The contract of the validator as the specification states it, for the frontmatter of its
  data model, whose \<open>name\<close>, \<open>description\<close> and \<open>metadata.version\<close> are strings: the
  frontmatter is a key-value structure when it is a mapping of keys to values; a field is
  missing when it is absent (\<open>undefined\<close>, or \<open>null\<close> for a key without a value) and blank
  when it is a string that trimming leaves empty; \<open>metadata.version\<close> is the \<open>version\<close> of
  the mapping \<open>metadata\<close>, and missing when there is no such mapping. The checks come in
  the order of the specification, and the first one violated is the failure.
\<close>

datatype violation = NoFrontmatter | NoName | NoDescription | NoVersion | InvalidVersion

definition spec_key_value :: "jsval \<Rightarrow> bool" where
  "spec_key_value v = (case v of JObj kvs \<Rightarrow> True | _ \<Rightarrow> False)"

definition spec_string_or_absent :: "jsval \<Rightarrow> bool" where
  "spec_string_or_absent v =
     (case v of JStr s \<Rightarrow> True | JUndefined \<Rightarrow> True | JNull \<Rightarrow> True | _ \<Rightarrow> False)"

definition spec_blank :: "jsval \<Rightarrow> bool" where
  "spec_blank v =
     (case v of JStr s \<Rightarrow> js_trim s = [] | JUndefined \<Rightarrow> True | JNull \<Rightarrow> True | _ \<Rightarrow> False)"

definition spec_trimmed :: "jsval \<Rightarrow> string" where
  "spec_trimmed v = (case v of JStr s \<Rightarrow> js_trim s | _ \<Rightarrow> [])"

definition spec_version :: "jsval \<Rightarrow> jsval" where
  "spec_version fm =
     (if spec_key_value (js_get fm ''metadata'') then js_get (js_get fm ''metadata'') ''version''
      else JUndefined)"

definition spec_checks :: "(violation \<times> (jsval \<Rightarrow> bool)) list" where
  "spec_checks =
     [(NoFrontmatter, \<lambda>fm. \<not> spec_key_value fm),
      (NoName, \<lambda>fm. spec_blank (js_get fm ''name'')),
      (NoDescription, \<lambda>fm. spec_blank (js_get fm ''description'')),
      (NoVersion, \<lambda>fm. spec_blank (spec_version fm)),
      (InvalidVersion, \<lambda>fm. \<not> semver_valid (spec_trimmed (spec_version fm)))]"

definition spec_first_violation :: "jsval \<Rightarrow> violation option" where
  "spec_first_violation fm = map_option fst (find (\<lambda>(v, violated). violated fm) spec_checks)"

section \<open>The file system\<close>

text \<open>
  A file tree: a regular file with its contents, or a directory with its entries in the
  order a listing gives them. The model has no symbolic links, devices or permissions.
\<close>

datatype node = File string | Dir "(string \<times> node) list"

fun lookup :: "node \<Rightarrow> string list \<Rightarrow> node option" where
  "lookup n [] = Some n"
| "lookup (File c) (s # ss) = None"
| "lookup (Dir es) (s # ss) = (case map_of es s of None \<Rightarrow> None | Some n \<Rightarrow> lookup n ss)"

text \<open>\<open>put t p n\<close> sets the node at \<open>p\<close>, whose parent must be a directory of \<open>t\<close>.\<close>

fun put :: "node \<Rightarrow> string list \<Rightarrow> node \<Rightarrow> node" where
  "put t [] n = n"
| "put (File c) (s # ss) n = File c"
| "put (Dir es) [s] n = Dir (AList.update s n es)"
| "put (Dir es) (s # s' # ss) n =
     (case map_of es s of
        None \<Rightarrow> Dir es
      | Some child \<Rightarrow> Dir (AList.update s (put child (s' # ss) n) es))"

text \<open>\<open>remove t p\<close> deletes the node at \<open>p\<close> with all below it, if there is one.\<close>

fun remove :: "node \<Rightarrow> string list \<Rightarrow> node" where
  "remove t [] = t"
| "remove (File c) (s # ss) = File c"
| "remove (Dir es) [s] = Dir (AList.delete s es)"
| "remove (Dir es) (s # s' # ss) =
     (case map_of es s of
        None \<Rightarrow> Dir es
      | Some child \<Rightarrow> Dir (AList.update s (remove child (s' # ss)) es))"

text \<open>
  \<open>mkdir\<close> with \<open>recursive: true\<close>: the directories missing along \<open>p\<close> are created; a regular
  file on the way is an error.
\<close>

fun mkdir_p :: "node \<Rightarrow> string list \<Rightarrow> error + node" where
  "mkdir_p (File c) [] = Inl (SystemError ''EEXIST'')"
| "mkdir_p (File c) (s # ss) = Inl (SystemError ''ENOTDIR'')"
| "mkdir_p (Dir es) [] = Inr (Dir es)"
| "mkdir_p (Dir es) (s # ss) =
     (case mkdir_p (case map_of es s of None \<Rightarrow> Dir [] | Some child \<Rightarrow> child) ss of
        Inl e \<Rightarrow> Inl e
      | Inr child' \<Rightarrow> Inr (Dir (AList.update s child' es)))"

text \<open>The height of a tree: the length of its longest path.\<close>

fun height :: "node \<Rightarrow> nat"
  and height_entries :: "(string \<times> node) list \<Rightarrow> nat" where
  "height (File c) = 0"
| "height (Dir es) = height_entries es"
| "height_entries [] = 0"
| "height_entries ((name, n) # es) = max (Suc (height n)) (height_entries es)"

definition height_at :: "node \<Rightarrow> string list \<Rightarrow> nat" where
  "height_at t P = (case lookup t P of None \<Rightarrow> 0 | Some n \<Rightarrow> height n)"

text \<open>The names that \<open>opendir\<close> and the iteration over it give for the directory at \<open>P\<close>.\<close>

definition readdir :: "node \<Rightarrow> string list \<Rightarrow> string list" where
  "readdir t P = (case lookup t P of Some (Dir es) \<Rightarrow> map fst es | _ \<Rightarrow> [])"

definition is_prefix :: "string list \<Rightarrow> string list \<Rightarrow> bool" where
  "is_prefix xs ys = (take (length xs) ys = xs)"

text \<open>
  \<open>fs.cp(src, dest, {recursive: true, force: true, errorOnExist: false})\<close> after Node's
  implementation (\<open>lib/internal/fs/cp/cp.js\<close>), on a tree \<open>t\<close> with the source at the path
  \<open>S\<close> and the destination at the path \<open>D\<close>.

  \<open>checkPaths\<close> looks at both places as they are when it is called: the source must exist
  and must not be the destination; a directory does not go over a non-directory, nor a
  non-directory over a directory; and a directory is not copied to a place inside itself.
\<close>

definition checkPaths :: "node \<Rightarrow> string list \<Rightarrow> string list \<Rightarrow> error option" where
  "checkPaths t S D =
     (case lookup t S of
        None \<Rightarrow> Some (SystemError ''ENOENT'')
      | Some s \<Rightarrow>
          if S = D then Some (SystemError ''ERR_FS_CP_EINVAL'')
          else
            (case (s, lookup t D) of
               (Dir ss, Some (File c)) \<Rightarrow> Some (SystemError ''ERR_FS_CP_DIR_TO_NON_DIR'')
             | (File c, Some (Dir ds)) \<Rightarrow> Some (SystemError ''ERR_FS_CP_NON_DIR_TO_DIR'')
             | (Dir ss, d) \<Rightarrow>
                 if is_prefix S D then Some (SystemError ''ERR_FS_CP_EINVAL'') else None
             | (File c, d) \<Rightarrow> None))"

text \<open>
  \<open>getStatsForCopy\<close> copies one item that has passed \<open>checkPaths\<close>. A regular file replaces
  the file at the destination (\<open>unlink\<close>, \<open>copyFile\<close>) or is created. For a directory the
  destination is created if missing (\<open>mkdir\<close>); then \<open>copyDir\<close> of \<open>cp.js\<close>, here
  \<open>cp_copyDir\<close>, opens the source and goes through the names of its listing in their order:
  each entry is checked and copied in the tree as the entries before it have left it, so
  what the copy has written is read again where the source lies inside the destination.
  The first error ends the copy. The result is the tree as the copy leaves it, and the error
  if there was one.

  The first argument bounds the depth to which the copy descends below \<open>S\<close>; \<open>fs_cp\<close> starts
  with the height of the source, a bound that is never met (lemma \<open>copy_depth\<close>).
\<close>

fun getStatsForCopy :: "nat \<Rightarrow> string list \<Rightarrow> string list \<Rightarrow> node \<Rightarrow> node \<times> error option"
  and cp_copyDir :: "nat \<Rightarrow> string list \<Rightarrow> string list \<Rightarrow> string list \<Rightarrow> node
                      \<Rightarrow> node \<times> error option" where
  "getStatsForCopy k S D t =
     (case lookup t S of
        None \<Rightarrow> (t, Some (SystemError ''ENOENT''))
      | Some (File c) \<Rightarrow> (put t D (File c), None)
      | Some (Dir ss) \<Rightarrow>
          (let t1 = (if lookup t D = None then put t D (Dir []) else t)
           in cp_copyDir k S D (readdir t1 S) t1))"
| "cp_copyDir k S D [] t = (t, None)"
| "cp_copyDir k S D (name # names) t =
     (case checkPaths t (S @ [name]) (D @ [name]) of
        Some e \<Rightarrow> (t, Some e)
      | None \<Rightarrow>
          (case k of
             0 \<Rightarrow> (t, Some (SystemError ''ELOOP''))
           | Suc k' \<Rightarrow>
               (case getStatsForCopy k' (S @ [name]) (D @ [name]) t of
                  (t', Some e) \<Rightarrow> (t', Some e)
                | (t', None) \<Rightarrow> cp_copyDir k S D names t')))"


section \<open>The world of a run\<close>

text \<open>What a run does to the outside, in order.\<close>

datatype event =
    Stat string
  | Access string
  | ReadFile string
  | Mkdir string
  | Mkdtemp string
  | Rm string
  | Cp string string
  | Spawn string "string list"
  | Prompt string string
  | Log string
  | Warn string
  | Help

record world =
  root :: node
  trace :: "event list"

datatype ConflictAction = Overwrite | Merge | Skip

text \<open>
  How the \<open>git\<close> child process ends: the spawn fails with an error code (\<open>ENOENT\<close> when
  there is no \<open>git\<close>), or the process exits with a code, having left some entries in the
  directory it was to clone into.
\<close>

datatype git_result = SpawnError string | Exited nat "(string \<times> node) list"

text \<open>
  The collaborators of the program, beyond the process environment: the URL constructor,
  the header parser \<open>matter\<close> (its \<open>data\<close>, or the error it throws), the \<open>git\<close> client (a
  function of its arguments), the prompt of \<open>inquirer\<close> (a function of the target's label
  and directory), and the names that \<open>mkdtemp\<close> tries.
\<close>

record runtime = process +
  url_constructor :: "string \<Rightarrow> URL option"
  gray_matter :: "string \<Rightarrow> error + jsval"
  git_client :: "string list \<Rightarrow> git_result"
  inquirer :: "string \<Rightarrow> string \<Rightarrow> error + ConflictAction"
  random_names :: "string list"

text \<open>
  A path names a place in the tree by its segments, resolved against the working
  directory as \<open>path.resolve\<close> does. (Without symbolic links this is the place the
  operating system finds, provided the directories named before a \<open>..\<close> exist.)
  \<open>fs_find\<close> is what \<open>stat\<close> sees: nothing for the empty path, and nothing for a regular
  file named with a trailing slash.
\<close>

definition fs_path :: "'a process_scheme \<Rightarrow> string \<Rightarrow> string list" where
  "fs_path ps p = filter (\<lambda>s. s \<noteq> []) (split_on CHR ''/'' (path_resolve (cwd ps) p))"

definition fs_find :: "'a process_scheme \<Rightarrow> node \<Rightarrow> string \<Rightarrow> node option" where
  "fs_find ps t p =
     (if p = [] then None
      else case lookup t (fs_path ps p) of
             Some (File c) \<Rightarrow> if last p = CHR ''/'' then None else Some (File c)
           | r \<Rightarrow> r)"

definition emit :: "event \<Rightarrow> world \<Rightarrow> world" where
  "emit ev w = w\<lparr>trace := trace w @ [ev]\<rparr>"

text \<open>\<open>fs.stat(p).catch(() => null)\<close>\<close>

definition fs_stat :: "'a process_scheme \<Rightarrow> string \<Rightarrow> world \<Rightarrow> node option \<times> world" where
  "fs_stat ps p w = (fs_find ps (root w) p, emit (Stat p) w)"

definition fs_readFile :: "'a process_scheme \<Rightarrow> string \<Rightarrow> world \<Rightarrow> (error + string) \<times> world" where
  "fs_readFile ps p w =
     (case fs_find ps (root w) p of
        None \<Rightarrow> Inl (SystemError ''ENOENT'')
      | Some (Dir es) \<Rightarrow> Inl (SystemError ''EISDIR'')
      | Some (File c) \<Rightarrow> Inr c,
      emit (ReadFile p) w)"

definition fs_mkdir :: "'a process_scheme \<Rightarrow> string \<Rightarrow> world \<Rightarrow> (error + unit) \<times> world" where
  "fs_mkdir ps p w =
     (case mkdir_p (root w) (fs_path ps p) of
        Inl e \<Rightarrow> (Inl e, emit (Mkdir p) w)
      | Inr t \<Rightarrow> (Inr (), emit (Mkdir p) (w\<lparr>root := t\<rparr>)))"

text \<open>\<open>fs.rm(p, {recursive: true, force: true})\<close>; in the model it always succeeds.\<close>

definition fs_rm :: "'a process_scheme \<Rightarrow> string \<Rightarrow> world \<Rightarrow> (error + unit) \<times> world" where
  "fs_rm ps p w = (Inr (), emit (Rm p) (w\<lparr>root := remove (root w) (fs_path ps p)\<rparr>))"

text \<open>
  \<open>fs.mkdtemp(prefix)\<close>: a new, empty directory named by the prefix and the first of the
  candidate names that is free; the directory of the prefix must exist.
\<close>

definition fs_mkdtemp :: "runtime \<Rightarrow> string \<Rightarrow> world \<Rightarrow> (error + string) \<times> world" where
  "fs_mkdtemp rt pre w =
     (case filter (\<lambda>n. fs_find rt (root w) (pre @ n) = None) (random_names rt) of
        [] \<Rightarrow> (Inl (SystemError ''EEXIST''), emit (Mkdtemp pre) w)
      | n # _ \<Rightarrow>
          (case lookup (root w) (butlast (fs_path rt (pre @ n))) of
             Some (Dir es) \<Rightarrow>
               (Inr (pre @ n),
                emit (Mkdtemp pre) (w\<lparr>root := put (root w) (fs_path rt (pre @ n)) (Dir [])\<rparr>))
           | _ \<Rightarrow> (Inl (SystemError ''ENOENT''), emit (Mkdtemp pre) w)))"

text \<open>
  \<open>fs.cp(src, dest, {recursive: true, force: true, errorOnExist: false})\<close>: the two places
  are checked; the directory of the destination is created if missing; then the source is
  copied. (\<open>checkParentPaths\<close> of \<open>cp.js\<close> adds nothing here: without links, the source is
  above the destination only if its path is a prefix of the destination's.)
\<close>

definition fs_cp :: "'a process_scheme \<Rightarrow> string \<Rightarrow> string \<Rightarrow> world \<Rightarrow> (error + unit) \<times> world" where
  "fs_cp ps src dest w =
     (let S = fs_path ps src; D = fs_path ps dest; w1 = emit (Cp src dest) w
      in case checkPaths (root w) S D of
           Some e \<Rightarrow> (Inl e, w1)
         | None \<Rightarrow>
             (case mkdir_p (root w) (butlast D) of
                Inl e \<Rightarrow> (Inl e, w1)
              | Inr t \<Rightarrow>
                  (case getStatsForCopy (height_at t S) S D t of
                     (t', e) \<Rightarrow>
                       (case e of None \<Rightarrow> Inr () | Some err \<Rightarrow> Inl err, w1\<lparr>root := t'\<rparr>))))"

definition pathExists :: "'a process_scheme \<Rightarrow> string \<Rightarrow> world \<Rightarrow> bool \<times> world" where
  "pathExists ps targetPath w = (fs_find ps (root w) targetPath \<noteq> None, emit (Access targetPath) w)"

definition copyDir :: "'a process_scheme \<Rightarrow> string \<Rightarrow> string \<Rightarrow> world \<Rightarrow> (error + unit) \<times> world" where
  "copyDir ps sourceDir targetDir w =
     (case fs_mkdir ps targetDir w of
        (Inl e, w1) \<Rightarrow> (Inl e, w1)
      | (Inr u, w1) \<Rightarrow> fs_cp ps sourceDir targetDir w1)"

section \<open>Source resolution\<close>

text \<open>An optional string is truthy when it is present and not empty.\<close>

definition given :: "string option \<Rightarrow> bool" where
  "given s = (case s of None \<Rightarrow> False | Some x \<Rightarrow> x \<noteq> [])"

text \<open>\<open>s || ""\<close>\<close>

definition or_empty :: "string option \<Rightarrow> string" where
  "or_empty s = (case s of None \<Rightarrow> [] | Some x \<Rightarrow> x)"

text \<open>
  The result of source resolution. The \<open>cleanup\<close> closure of the program removes the clone
  directory; it is kept here as that directory's path. (A path that is neither a regular
  file nor a directory does not exist in the model, so the error
  \<open>Skill path must be a directory or SKILL.md file\<close> has no branch.)
\<close>

record ResolveResult =
  skillDir :: string
  cleanup :: "string option"

definition resolveSkillDirFromBase ::
    "'a process_scheme \<Rightarrow> string \<Rightarrow> string option \<Rightarrow> world \<Rightarrow> (error + string) \<times> world" where
  "resolveSkillDirFromBase ps base sub w =
     (let dir = (if given sub then path_join [base, or_empty sub] else base);
          skillFile = path_join [dir, ''SKILL.md'']
      in case fs_stat ps skillFile w of
           (Some (File c), w1) \<Rightarrow> (Inr dir, w1)
         | (_, w1) \<Rightarrow>
             (Inl (Error (''SKILL.md not found in '' @ dir @
                          (if given sub then '' (subdir: '' @ or_empty sub @ '')'' else []))), w1))"

definition runGit :: "runtime \<Rightarrow> string list \<Rightarrow> world \<Rightarrow> (error + unit) \<times> world" where
  "runGit rt args w =
     (case git_client rt args of
        SpawnError code \<Rightarrow>
          (Inl (if code = ''ENOENT'' then Error ''git is required to install from a repository''
                else SystemError code),
           emit (Spawn ''git'' args) w)
      | Exited code entries \<Rightarrow>
          (if code = 0 then Inr () else Inl (Error (''git exited with code '' @ decimal code)),
           emit (Spawn ''git'' args) (w\<lparr>root := put (root w) (fs_path rt (last args)) (Dir entries)\<rparr>)))"

definition cloneRepo ::
    "runtime \<Rightarrow> string \<Rightarrow> string \<Rightarrow> string option \<Rightarrow> world \<Rightarrow> (error + unit) \<times> world" where
  "cloneRepo rt url targetDir branch w =
     runGit rt ([''clone'', ''--depth'', ''1'']
                @ (if given branch then [''--branch'', or_empty branch, ''--single-branch''] else [])
                @ [url, targetDir]) w"

definition resolveSkillSource ::
    "runtime \<Rightarrow> string \<Rightarrow> string option \<Rightarrow> string option \<Rightarrow> world
       \<Rightarrow> (error + ResolveResult) \<times> world" where
  "resolveSkillSource rt resolvedSkillPath sub branch w =
     (case parseRepoSpec (url_constructor rt) resolvedSkillPath of
        Some repoSpec \<Rightarrow>
          if given sub \<and> given (repoSubdir repoSpec) then
            (Inl (Error ''Provide either --subdir or a repo URL with a path, not both''), w)
          else
            let sub' = (if given (repoSubdir repoSpec) then repoSubdir repoSpec
                        else if given sub then sub else None)
            in (case fs_mkdtemp rt (path_join [tmpdir rt, ''agent-skill-'']) w of
                  (Inl e, w1) \<Rightarrow> (Inl e, w1)
                | (Inr cloneDir, w1) \<Rightarrow>
                    (case cloneRepo rt (repoUrl repoSpec) cloneDir
                            (if given branch then branch else repoRef repoSpec) w1 of
                       (Inl e, w2) \<Rightarrow> (Inl e, w2)
                     | (Inr u, w2) \<Rightarrow>
                         (case resolveSkillDirFromBase rt cloneDir sub' w2 of
                            (Inl e, w3) \<Rightarrow> (Inl e, w3)
                          | (Inr dir, w3) \<Rightarrow>
                              (Inr \<lparr>skillDir = dir, cleanup = Some cloneDir\<rparr>, w3))))
      | None \<Rightarrow>
          (case fs_stat rt resolvedSkillPath w of
             (None, w1) \<Rightarrow> (Inl (Error (''Skill path not found: '' @ resolvedSkillPath)), w1)
           | (Some (File c), w1) \<Rightarrow>
               if path_basename resolvedSkillPath \<noteq> ''SKILL.md'' then
                 (Inl (Error ''Skill file must be named SKILL.md''), w1)
               else (Inr \<lparr>skillDir = path_dirname resolvedSkillPath, cleanup = None\<rparr>, w1)
           | (Some (Dir es), w1) \<Rightarrow>
               (case resolveSkillDirFromBase rt resolvedSkillPath (if given sub then sub else None) w1 of
                  (Inl e, w2) \<Rightarrow> (Inl e, w2)
                | (Inr dir, w2) \<Rightarrow> (Inr \<lparr>skillDir = dir, cleanup = None\<rparr>, w2))))"


section \<open>Installation\<close>

definition promptConflictAction ::
    "runtime \<Rightarrow> string \<Rightarrow> string \<Rightarrow> world \<Rightarrow> (error + ConflictAction) \<times> world" where
  "promptConflictAction rt lbl targetSkillDir w =
     (inquirer rt lbl targetSkillDir, emit (Prompt lbl targetSkillDir) w)"

text \<open>The body of the loop over the targets, for one target.\<close>

definition installTarget ::
    "runtime \<Rightarrow> bool \<Rightarrow> bool \<Rightarrow> string \<Rightarrow> string \<Rightarrow> InstallTarget \<Rightarrow> world
       \<Rightarrow> (error + unit) \<times> world" where
  "installTarget rt forced merged dir skillName target w =
     (let targetRoot = baseDir target;
          targetSkillDir = path_join [targetRoot, skillName]
      in case fs_mkdir rt targetRoot w of
           (Inl e, w1) \<Rightarrow> (Inl e, w1)
         | (Inr u, w1) \<Rightarrow>
             (case pathExists rt targetSkillDir w1 of
                (exists, w2) \<Rightarrow>
                  (case (if exists \<and> \<not> forced \<and> \<not> merged
                         then promptConflictAction rt (label target) targetSkillDir w2
                         else if exists \<and> merged then (Inr Merge, w2)
                         else (Inr Overwrite, w2)) of
                     (Inl e, w3) \<Rightarrow> (Inl e, w3)
                   | (Inr Skip, w3) \<Rightarrow>
                       (Inr (), emit (Log (''Skipped '' @ label target @ '': '' @ targetSkillDir)) w3)
                   | (Inr Overwrite, w3) \<Rightarrow>
                       (case fs_rm rt targetSkillDir w3 of
                          (Inl e, w4) \<Rightarrow> (Inl e, w4)
                        | (Inr u, w4) \<Rightarrow>
                            (case copyDir rt dir targetSkillDir w4 of
                               (Inl e, w5) \<Rightarrow> (Inl e, w5)
                             | (Inr u, w5) \<Rightarrow>
                                 (Inr (), emit (Log (''Installed ('' @ label target @ '') -> ''
                                                     @ targetSkillDir)) w5)))
                   | (Inr Merge, w3) \<Rightarrow>
                       (case copyDir rt dir targetSkillDir w3 of
                          (Inl e, w4) \<Rightarrow> (Inl e, w4)
                        | (Inr u, w4) \<Rightarrow>
                            (Inr (), emit (Log (''Merged ('' @ label target @ '') -> ''
                                                @ targetSkillDir)) w4)))))"

text \<open>The loop: the targets in order, until one fails.\<close>

fun installTargets ::
    "runtime \<Rightarrow> bool \<Rightarrow> bool \<Rightarrow> string \<Rightarrow> string \<Rightarrow> InstallTarget list \<Rightarrow> world
       \<Rightarrow> (error + unit) \<times> world" where
  "installTargets rt forced merged dir skillName [] w = (Inr (), w)"
| "installTargets rt forced merged dir skillName (target # targets) w =
     (case installTarget rt forced merged dir skillName target w of
        (Inl e, w1) \<Rightarrow> (Inl e, w1)
      | (Inr u, w1) \<Rightarrow> installTargets rt forced merged dir skillName targets w1)"

text \<open>The body of the \<open>try\<close> block of \<open>runInstall\<close>.\<close>

definition installFrom ::
    "runtime \<Rightarrow> InstallOptions \<Rightarrow> string \<Rightarrow> world \<Rightarrow> (error + unit) \<times> world" where
  "installFrom rt opts dir w =
     (let skillFile = path_join [dir, ''SKILL.md'']
      in case fs_readFile rt skillFile w of
           (Inl e, w1) \<Rightarrow> (Inl e, w1)
         | (Inr skillContents, w1) \<Rightarrow>
             (case gray_matter rt skillContents of
                Inl e \<Rightarrow> (Inl e, w1)
              | Inr frontmatter \<Rightarrow>
                  (case validateFrontmatter frontmatter skillFile of
                     Inl e \<Rightarrow> (Inl e, w1)
                   | Inr u \<Rightarrow>
                       let skillName = js_trim (js_String (js_get frontmatter ''name''));
                           skillDirName = path_basename dir;
                           w2 = (if skillDirName \<noteq> skillName
                                 then emit (Warn (''Warning: skill directory name '' @ quoted skillDirName
                                         @ '' does not match SKILL.md name '' @ quoted skillName
                                         @ ''. Using SKILL.md name for install.'')) w1
                                 else w1)
                       in installTargets rt (force opts) (merge opts) dir skillName
                            (getInstallTargets rt (destinationProjectPath opts)) w2)))"

text \<open>
  How a run ends: it returns, it shows the help and exits (\<open>program.help\<close> ends the
  process), or it throws.
\<close>

datatype outcome = Done | HelpExit | Failed error

definition runInstall :: "runtime \<Rightarrow> InstallOptions \<Rightarrow> world \<Rightarrow> outcome \<times> world" where
  "runInstall rt opts w =
     (if \<not> given (skillPath opts) then (HelpExit, emit Help w)
      else if force opts \<and> merge opts then
        (Failed (Error ''--force and --merge cannot be used together''), w)
      else
        let resolvedSkillPath = or_empty (skillPath opts);
            skillInput = (if isRepoLike resolvedSkillPath then resolvedSkillPath
                          else path_resolve (cwd rt) resolvedSkillPath)
        in case resolveSkillSource rt skillInput (subdir opts) (ref opts) w of
             (Inl e, w1) \<Rightarrow> (Failed e, w1)
           | (Inr res, w1) \<Rightarrow>
               (case installFrom rt opts (skillDir res) w1 of
                  (r, w2) \<Rightarrow>
                    (case r of Inl e \<Rightarrow> Failed e | Inr u \<Rightarrow> Done,
                     case cleanup res of
                       None \<Rightarrow> w2
                     | Some cloneDir \<Rightarrow> snd (fs_rm rt cloneDir w2))))"

section \<open>A concrete runtime and world\<close>

text \<open>
  For concrete runs: a working directory \<open>/work\<close> that holds a directory named \<open>http:\<close>, an
  empty \<open>/tmp\<close>, a home directory, a \<open>git\<close> that exits with code 128 and leaves nothing,
  and a header parser that always returns the same valid manifest.
\<close>

definition example_runtime :: runtime where
  "example_runtime =
     \<lparr>cwd = ''/work'', homedir = ''/home/u'', tmpdir = ''/tmp'', CODEX_HOME = None,
      url_constructor = plain_URL,
      gray_matter = (\<lambda>s. Inr (manifest (JStr ''my-skill'') (JStr ''A skill'') (JStr ''1.0.0''))),
      git_client = (\<lambda>args. Exited 128 []),
      inquirer = (\<lambda>l d. Inr Skip),
      random_names = [''abc123'']\<rparr>"

definition example_world :: world where
  "example_world =
     \<lparr>root = Dir [(''tmp'', Dir []),
                  (''home'', Dir [(''u'', Dir [])]),
                  (''work'', Dir [(''http:'', Dir [])])],
      trace = []\<rparr>"

definition example_options :: InstallOptions where
  "example_options =
     \<lparr>skillPath = Some ''o/r'', subdir = None, ref = None, destinationProjectPath = None,
      force = False, merge = False\<rparr>"

section \<open>Notions for the statements about copying\<close>

text \<open>A listing names no entry twice, at any depth.\<close>

fun well_formed :: "node \<Rightarrow> bool"
  and well_formed_entries :: "(string \<times> node) list \<Rightarrow> bool" where
  "well_formed (File c) = True"
| "well_formed (Dir es) = well_formed_entries es"
| "well_formed_entries [] = True"
| "well_formed_entries ((name, n) # es) =
     (name \<notin> fst ` set es \<and> well_formed n \<and> well_formed_entries es)"

text \<open>
  A source and a destination are compatible when no path is a directory in one and a
  regular file in the other.
\<close>

fun compatible :: "node \<Rightarrow> node option \<Rightarrow> bool"
  and compatible_entries :: "(string \<times> node) list \<Rightarrow> (string \<times> node) list \<Rightarrow> bool" where
  "compatible s None = True"
| "compatible (File c) (Some (File c')) = True"
| "compatible (File c) (Some (Dir ds)) = False"
| "compatible (Dir ss) (Some (File c')) = False"
| "compatible (Dir ss) (Some (Dir ds)) = compatible_entries ss ds"
| "compatible_entries [] ds = True"
| "compatible_entries ((name, s) # ss) ds =
     (compatible s (map_of ds name) \<and> compatible_entries ss ds)"

text \<open>There is a regular file at the path \<open>P\<close>.\<close>

definition file_at :: "node \<Rightarrow> string list \<Rightarrow> bool" where
  "file_at t P = (case lookup t P of Some (File c) \<Rightarrow> True | _ \<Rightarrow> False)"

text \<open>There is a directory at the path \<open>P\<close>.\<close>

definition dir_at :: "node \<Rightarrow> string list \<Rightarrow> bool" where
  "dir_at t P = (case lookup t P of Some (Dir es) \<Rightarrow> True | _ \<Rightarrow> False)"

text \<open>
  What the copy makes of a destination \<open>d\<close> when the source \<open>s\<close> is not written to while it
  is copied (lemma \<open>copy_snapshot\<close>): the destination as the copy leaves it, and the error
  if there was one.
\<close>

fun cp_item :: "node \<Rightarrow> node option \<Rightarrow> node \<times> error option"
  and cp_entries :: "(string \<times> node) list \<Rightarrow> (string \<times> node) list
                      \<Rightarrow> (string \<times> node) list \<times> error option" where
  "cp_item (File c) None = (File c, None)"
| "cp_item (File c) (Some (File c')) = (File c, None)"
| "cp_item (File c) (Some (Dir ds)) = (Dir ds, Some (SystemError ''ERR_FS_CP_NON_DIR_TO_DIR''))"
| "cp_item (Dir ss) None = (case cp_entries ss [] of (ds', e) \<Rightarrow> (Dir ds', e))"
| "cp_item (Dir ss) (Some (File c')) = (File c', Some (SystemError ''ERR_FS_CP_DIR_TO_NON_DIR''))"
| "cp_item (Dir ss) (Some (Dir ds)) = (case cp_entries ss ds of (ds', e) \<Rightarrow> (Dir ds', e))"
| "cp_entries [] ds = (ds, None)"
| "cp_entries ((name, s) # ss) ds =
     (case cp_item s (map_of ds name) of
        (d', Some e) \<Rightarrow> (AList.update name d' ds, Some e)
      | (d', None) \<Rightarrow> cp_entries ss (AList.update name d' ds))"

text \<open>
  Three worlds for concrete installs of the skill \<open>my-skill\<close> into the project target
  \<open>/proj/.claude/skills\<close>, where it is installed already. In the first the skill source
  \<open>/src\<close> and the installed skill share \<open>SKILL.md\<close> and \<open>lib/a.txt\<close>. In the second \<open>docs\<close> is a
  directory in the source and a regular file in the installed skill, and is listed before
  \<open>SKILL.md\<close>. In the third the source is the directory \<open>backup\<close> of the installed skill: it
  has an empty directory \<open>docs\<close>, listed after its own \<open>backup\<close>, which holds
  \<open>docs/notes.md\<close>; the installed skill has a \<open>docs/notes.md\<close> of its own.
\<close>

definition example_target :: InstallTarget where
  "example_target = \<lparr>label = ''claude-project'', baseDir = ''/proj/.claude/skills''\<rparr>"

definition installed :: "node \<Rightarrow> node" where
  "installed skill = Dir [(''.claude'', Dir [(''skills'', Dir [(''my-skill'', skill)])])]"

definition merge_world :: world where
  "merge_world =
     \<lparr>root = Dir [(''src'', Dir [(''SKILL.md'', File ''new''),
                                  (''lib'', Dir [(''a.txt'', File ''A2'')])]),
                  (''proj'', installed (Dir [(''SKILL.md'', File ''old''),
                                  (''keep.txt'', File ''mine''),
                                  (''lib'', Dir [(''a.txt'', File ''A1''), (''b.txt'', File ''B'')])]))],
      trace = []\<rparr>"

definition clash_world :: world where
  "clash_world =
     \<lparr>root = Dir [(''src'', Dir [(''docs'', Dir []), (''SKILL.md'', File ''new'')]),
                  (''proj'', installed (Dir [(''docs'', File ''notes''), (''SKILL.md'', File ''old'')]))],
      trace = []\<rparr>"

definition nested_world :: world where
  "nested_world =
     \<lparr>root = Dir [(''proj'', installed (Dir
                  [(''SKILL.md'', File ''old''),
                   (''docs'', Dir [(''notes.md'', File ''mine'')]),
                   (''backup'', Dir
                      [(''SKILL.md'', File ''new''),
                       (''backup'', Dir [(''docs'', Dir [(''notes.md'', File ''theirs'')])]),
                       (''docs'', Dir [])])]))],
      trace = []\<rparr>"

text \<open>A path segment that normalisation keeps as it is.\<close>

definition plain_segment :: "string \<Rightarrow> bool" where
  "plain_segment s = (s \<noteq> [] \<and> s \<noteq> ''.'' \<and> s \<noteq> ''..'')"

section \<open>Notions for the statements about effects\<close>

text \<open>
  The effects of cloning: creating the temporary directory and spawning \<open>git\<close>.
  \<open>adds_no_clone w w'\<close>: the trace of \<open>w'\<close> is the trace of \<open>w\<close> followed by effects of which
  none is one of these.
\<close>

definition clone_event :: "event \<Rightarrow> bool" where
  "clone_event ev = (case ev of Mkdtemp p \<Rightarrow> True | Spawn c args \<Rightarrow> True | _ \<Rightarrow> False)"

definition adds_no_clone :: "world \<Rightarrow> world \<Rightarrow> bool" where
  "adds_no_clone w w' =
     (take (length (trace w)) (trace w') = trace w \<and>
      list_all (\<lambda>ev. \<not> clone_event ev) (drop (length (trace w)) (trace w')))"


chapter \<open>Properties\<close>

section \<open>Manifest validation: proofs\<close>

lemma metadata_version_eq:
  "js_get (if js_truthy (js_get fm ''metadata'') \<and> js_typeof (js_get fm ''metadata'') = ''object''
           then js_get fm ''metadata'' else JNull) ''version'' = metadata_version fm"
  by (cases "js_get fm ''metadata''") (simp_all add: metadata_version_def)

lemma field_text_JStr: "field_text (JStr s) = js_trim s"
  by (simp add: field_text_def js_or_def js_trim_def)

lemma field_text_JUndefined: "field_text JUndefined = []"
  by (simp add: field_text_def js_or_def js_trim_def)


lemma field_text_falsy: "\<not> js_truthy v \<Longrightarrow> field_text v = []"
  by (simp add: field_text_def js_or_def js_trim_def)

lemma metadata_version_absent:
  "js_get fm ''metadata'' = JUndefined \<Longrightarrow> metadata_version fm = JUndefined"
  by (simp add: metadata_version_def)

lemma validateFrontmatter_unfold:
  "validateFrontmatter fm skillFile =
     (if js_truthy fm \<and> js_typeof fm = ''object'' then
        if field_text (js_get fm ''name'') = [] then
          Inl (Error (''Missing required frontmatter field '' @ quoted ''name'' @ '' in '' @ skillFile))
        else if field_text (js_get fm ''description'') = [] then
          Inl (Error (''Missing required frontmatter field '' @ quoted ''description'' @ '' in ''
                      @ skillFile))
        else if field_text (metadata_version fm) = [] then
          Inl (Error (''Missing required frontmatter field '' @ quoted ''metadata.version'' @ '' in ''
                      @ skillFile))
        else if semver_valid (field_text (metadata_version fm)) then Inr ()
        else Inl (Error (''Invalid semver '' @ quoted ''metadata.version'' @ '' in '' @ skillFile
                         @ '': '' @ field_text (metadata_version fm)))
      else Inl (Error (''Missing YAML frontmatter in '' @ skillFile)))"
proof (cases "js_truthy fm \<and> js_typeof fm = ''object''")
  case False
  then show ?thesis
    unfolding validateFrontmatter_def
    by (simp only: de_Morgan_conj[symmetric] if_True if_False simp_thms)
next
  case True
  then have g: "(\<not> js_truthy fm \<or> js_typeof fm \<noteq> ''object'') = False" by blast
  show ?thesis
    unfolding validateFrontmatter_def Let_def metadata_version_eq field_text_def[symmetric] g
    using True by simp
qed







lemma spec_version_eq: "spec_version fm = metadata_version fm"
  by (cases "js_get fm ''metadata''") (simp_all add: spec_version_def metadata_version_def spec_key_value_def)

lemma spec_blank_field_text:
  "spec_string_or_absent v \<Longrightarrow> spec_blank v = (field_text v = [])"
  by (cases v) (simp_all add: spec_string_or_absent_def spec_blank_def field_text_JStr field_text_falsy)

lemma spec_trimmed_field_text:
  "spec_string_or_absent v \<Longrightarrow> spec_trimmed v = field_text v"
  by (cases v) (simp_all add: spec_string_or_absent_def spec_trimmed_def field_text_JStr field_text_falsy)

lemma spec_first_violation_unfold:
  "spec_first_violation fm =
     (if \<not> spec_key_value fm then Some NoFrontmatter
      else if spec_blank (js_get fm ''name'') then Some NoName
      else if spec_blank (js_get fm ''description'') then Some NoDescription
      else if spec_blank (spec_version fm) then Some NoVersion
      else if \<not> semver_valid (spec_trimmed (spec_version fm)) then Some InvalidVersion
      else None)"
  by (simp add: spec_first_violation_def spec_checks_def)

lemma object_test: "(js_truthy fm \<and> js_typeof fm = ''object'') = (spec_key_value fm \<or> isArray fm)"
  by (cases fm) (simp_all add: spec_key_value_def isArray_def)

text \<open>
  C3 (as amended). For a frontmatter whose \<open>name\<close>, \<open>description\<close> and \<open>metadata.version\<close>
  are strings or absent, the validator fails on exactly the first violation in the order of
  the specification, (1) no key-value structure, (2) \<open>name\<close> missing or blank,
  (3) \<open>description\<close> missing or blank, (4) \<open>metadata.version\<close> missing or blank, an absent
  \<open>metadata\<close> giving a missing version, (5) \<open>metadata.version\<close> not valid semver, with the
  message of that check, a string being trimmed before it is judged; and it raises nothing
  when there is no violation. One case apart: an array is no key-value structure, yet it
  passes check (1); it is judged like a mapping without keys, and so fails check (2).
\<close>

theorem validateFrontmatter_order:
  assumes "spec_string_or_absent (js_get fm ''name'')"
    and "spec_string_or_absent (js_get fm ''description'')"
    and "spec_string_or_absent (spec_version fm)"
  shows "validateFrontmatter fm skillFile =
     (case spec_first_violation (if isArray fm then JObj [] else fm) of
        None \<Rightarrow> Inr ()
      | Some NoFrontmatter \<Rightarrow> Inl (Error (''Missing YAML frontmatter in '' @ skillFile))
      | Some NoName \<Rightarrow>
          Inl (Error (''Missing required frontmatter field '' @ quoted ''name'' @ '' in '' @ skillFile))
      | Some NoDescription \<Rightarrow>
          Inl (Error (''Missing required frontmatter field '' @ quoted ''description'' @ '' in ''
                      @ skillFile))
      | Some NoVersion \<Rightarrow>
          Inl (Error (''Missing required frontmatter field '' @ quoted ''metadata.version'' @ '' in ''
                      @ skillFile))
      | Some InvalidVersion \<Rightarrow>
          Inl (Error (''Invalid semver '' @ quoted ''metadata.version'' @ '' in '' @ skillFile
                      @ '': '' @ spec_trimmed (spec_version fm))))"
proof (cases "isArray fm")
  case True
  then obtain xs where fm: "fm = JArr xs" by (cases fm) (simp_all add: isArray_def)
  have "spec_first_violation (JObj []) = Some NoName"
    by (simp add: spec_first_violation_unfold spec_key_value_def spec_blank_def)
  then show ?thesis
    unfolding validateFrontmatter_unfold using fm
    by (simp add: isArray_def field_text_JUndefined)
next
  case False
  have t: "(js_truthy fm \<and> js_typeof fm = ''object'') = spec_key_value fm"
    using False object_test by simp
  show ?thesis
    unfolding validateFrontmatter_unfold t spec_first_violation_unfold
    using False assms
    by (simp add: spec_blank_field_text spec_trimmed_field_text spec_version_eq)
qed

text \<open>
  At a manifest whose description is three spaces the third check fails, and a manifest
  with the version \<open>1.0.0\<close> between spaces passes.
\<close>

theorem validateFrontmatter_order_witness:
  "validateFrontmatter (manifest (JStr ''my-skill'') (JStr ''   '') (JStr ''1.0.0'')) ''SKILL.md'' =
     Inl (Error (''Missing required frontmatter field '' @ quoted ''description'' @ '' in ''
                 @ ''SKILL.md''))
   \<and> validateFrontmatter (manifest (JStr ''my-skill'') (JStr ''A skill'') (JStr '' 1.0.0 '')) ''SKILL.md''
       = Inr ()"
proof -
  let ?a = "manifest (JStr ''my-skill'') (JStr ''   '') (JStr ''1.0.0'')"
  let ?b = "manifest (JStr ''my-skill'') (JStr ''A skill'') (JStr '' 1.0.0 '')"
  have a: "spec_string_or_absent (js_get ?a ''name'')" "spec_string_or_absent (js_get ?a ''description'')"
    "spec_string_or_absent (spec_version ?a)"
    by code_simp+
  have b: "spec_string_or_absent (js_get ?b ''name'')" "spec_string_or_absent (js_get ?b ''description'')"
    "spec_string_or_absent (spec_version ?b)"
    by code_simp+
  have va: "spec_first_violation (if isArray ?a then JObj [] else ?a) = Some NoDescription"
    by code_simp
  have vb: "spec_first_violation (if isArray ?b then JObj [] else ?b) = None"
    by code_simp
  show ?thesis
    using validateFrontmatter_order[OF a, of "''SKILL.md''"]
      validateFrontmatter_order[OF b, of "''SKILL.md''"]
    unfolding va vb by simp
qed

text \<open>
  C3, counterexample. The header \<open>- my-skill\<close> parses to an array: in the words of the
  specification its first violation is (1), but the validator reports the missing name,
  check (2). And a description \<open>0\<close>, a number, is neither missing nor a blank string, so that
  no check of the specification is violated, but the validator reports it missing: it
  judges \<open>String(v || "").trim()\<close>.
\<close>

theorem validateFrontmatter_array_or_number:
  "spec_first_violation (JArr [JStr ''my-skill'']) = Some NoFrontmatter
   \<and> validateFrontmatter (JArr [JStr ''my-skill'']) ''SKILL.md'' =
       Inl (Error (''Missing required frontmatter field '' @ quoted ''name'' @ '' in SKILL.md''))
   \<and> spec_first_violation (manifest (JStr ''my-skill'') (JNum 0) (JStr ''1.0.0'')) = None
   \<and> validateFrontmatter (manifest (JStr ''my-skill'') (JNum 0) (JStr ''1.0.0'')) ''SKILL.md'' =
       Inl (Error (''Missing required frontmatter field '' @ quoted ''description'' @ '' in SKILL.md''))"
  by code_simp







section \<open>Repository specifications: proofs\<close>

lemma parseGitHubUrl_example:
  "parseGitHubUrl \<lparr>hostname = ''github.com'', pathname = ''/o/r/tree/main/skills/x''\<rparr> =
     Some \<lparr>repoUrl = ''https://github.com/o/r.git'', repoRef = Some ''main'',
           repoSubdir = Some ''skills/x''\<rparr>"
  by code_simp

text \<open>
  C4. \<open>parseRepoSpec\<close> is a function of its input and of the runtime's URL constructor alone.
  Where that constructor reads \<open>https://github.com/o/r/tree/main/skills/x\<close> as the host
  \<open>github.com\<close> with the path \<open>/o/r/tree/main/skills/x\<close>, the three inputs of the claim give
  the three results of the claim.
\<close>

theorem parseRepoSpec_examples:
  assumes "new_URL ''https://github.com/o/r/tree/main/skills/x'' =
             Some \<lparr>hostname = ''github.com'', pathname = ''/o/r/tree/main/skills/x''\<rparr>"
  shows "parseRepoSpec new_URL ''https://github.com/o/r/tree/main/skills/x'' =
           Some \<lparr>repoUrl = ''https://github.com/o/r.git'', repoRef = Some ''main'',
                 repoSubdir = Some ''skills/x''\<rparr>
       \<and> parseRepoSpec new_URL ''o/r'' =
           Some \<lparr>repoUrl = ''https://github.com/o/r.git'', repoRef = None, repoSubdir = None\<rparr>
       \<and> parseRepoSpec new_URL ''/local/path'' = None"
proof -
  have s: "startsWith ''https://github.com/o/r/tree/main/skills/x'' ''https://'' = True"
    "startsWith ''o/r'' ''http://'' = False" "startsWith ''o/r'' ''https://'' = False"
    "endsWith ''o/r'' ''.git'' = False"
    "owner_repo_shorthand ''o/r'' = True"
    "startsWith ''/local/path'' ''http://'' = False" "startsWith ''/local/path'' ''https://'' = False"
    "endsWith ''/local/path'' ''.git'' = False" "owner_repo_shorthand ''/local/path'' = False"
    by code_simp+
  have a: "parseRepoSpec new_URL ''https://github.com/o/r/tree/main/skills/x'' =
           Some \<lparr>repoUrl = ''https://github.com/o/r.git'', repoRef = Some ''main'',
                 repoSubdir = Some ''skills/x''\<rparr>"
    unfolding parseRepoSpec_def by (simp add: s assms parseGitHubUrl_example)
  have b: "parseRepoSpec new_URL ''o/r'' =
           Some \<lparr>repoUrl = ''https://github.com/o/r.git'', repoRef = None, repoSubdir = None\<rparr>"
    unfolding parseRepoSpec_def by (simp add: s)
  have c: "parseRepoSpec new_URL ''/local/path'' = None"
    unfolding parseRepoSpec_def by (simp add: s)
  show ?thesis using a b c by blast
qed

text \<open>With \<open>plain_URL\<close> for the constructor.\<close>

theorem parseRepoSpec_examples_witness:
  "parseRepoSpec plain_URL ''https://github.com/o/r/tree/main/skills/x'' =
           Some \<lparr>repoUrl = ''https://github.com/o/r.git'', repoRef = Some ''main'',
                 repoSubdir = Some ''skills/x''\<rparr>
       \<and> parseRepoSpec plain_URL ''o/r'' =
           Some \<lparr>repoUrl = ''https://github.com/o/r.git'', repoRef = None, repoSubdir = None\<rparr>
       \<and> parseRepoSpec plain_URL ''/local/path'' = None"
proof -
  have "plain_URL ''https://github.com/o/r/tree/main/skills/x'' =
             Some \<lparr>hostname = ''github.com'', pathname = ''/o/r/tree/main/skills/x''\<rparr>"
    by code_simp
  then show ?thesis by (rule parseRepoSpec_examples)
qed

section \<open>Splitting and joining\<close>

lemma split_on_not_Nil: "split_on c s \<noteq> []"
  by (induction s) (auto split: list.splits)

lemma split_on_append: "split_on c (a @ c # b) = split_on c a @ split_on c b"
proof (induction a)
  case Nil
  show ?case by simp
next
  case (Cons x xs)
  obtain w ws where w: "split_on c xs = w # ws"
    using split_on_not_Nil[of c xs] by (cases "split_on c xs") auto
  show ?case using Cons w by simp
qed

lemma split_on_no_sep: "c \<notin> set a \<Longrightarrow> split_on c a = [a]"
  by (induction a) auto

lemma js_join_split_on: "js_join [c] (split_on c s) = s"
proof (induction s)
  case Nil
  show ?case by simp
next
  case (Cons x xs)
  obtain w ws where w: "split_on c xs = w # ws"
    using split_on_not_Nil[of c xs] by (cases "split_on c xs") auto
  show ?case
  proof (cases "x = c")
    case True
    then show ?thesis using Cons w by simp
  next
    case False
    then show ?thesis using Cons w by (cases ws) auto
  qed
qed

lemma path_dirname_not_Nil: "path_dirname p \<noteq> []"
proof (cases "p = []")
  case True
  then show ?thesis by (simp add: path_dirname_def)
next
  case False
  define r where "r = dropWhile (\<lambda>c. c \<noteq> CHR ''/'') (dropWhile (\<lambda>c. c = CHR ''/'') (rev (tl p)))"
  have "path_dirname p =
          (if r = [] then (if hd p = CHR ''/'' then ''/'' else ''.'')
           else if hd p = CHR ''/'' \<and> length r = 1 then ''//''
           else take (length r) p)"
    unfolding path_dirname_def Let_def r_def using False by (simp only: if_False)
  moreover have "r \<noteq> [] \<Longrightarrow> take (length r) p \<noteq> []"
    using False by (simp add: take_eq_Nil)
  ultimately show ?thesis
    by (cases "r = []") (simp_all del: One_nat_def)
qed

section \<open>Source resolution: proofs\<close>

lemma given_Some: "given (Some s) = (s \<noteq> [])"
  by (simp add: given_def)

lemma or_empty_Some: "or_empty (Some s) = s"
  by (simp add: or_empty_def)

lemma parseGitHubUrl_tree:
  assumes p: "pathname url = ''/'' @ owner @ ''/'' @ repo @ ''/'' @ kind @ ''/'' @ rf @ ''/'' @ path"
    and ns: "CHR ''/'' \<notin> set owner" "CHR ''/'' \<notin> set repo" "CHR ''/'' \<notin> set rf"
    and k: "kind = ''tree'' \<or> kind = ''blob''"
    and path: "path \<noteq> []"
  shows "\<exists>spec. parseGitHubUrl url = Some spec \<and> given (repoSubdir spec)"
proof -
  have nk: "CHR ''/'' \<notin> set kind" using k by auto
  have tl: "(case pathname url of [] \<Rightarrow> [] | c # cs \<Rightarrow> if c = CHR ''/'' then cs else c # cs) =
            owner @ CHR ''/'' # repo @ CHR ''/'' # kind @ CHR ''/'' # rf @ CHR ''/'' # path"
    by (simp add: p)
  have seg: "split_on CHR ''/'' (owner @ CHR ''/'' # repo @ CHR ''/'' # kind @ CHR ''/'' # rf @ CHR ''/'' # path) =
             owner # repo # kind # rf # split_on CHR ''/'' path"
    by (simp only: split_on_append split_on_no_sep[OF ns(1)] split_on_no_sep[OF ns(2)]
          split_on_no_sep[OF ns(3)] split_on_no_sep[OF nk] append.simps)
  have j: "js_join ''/'' (split_on CHR ''/'' path) = path"
    by (rule js_join_split_on)
  have i2: "js_index (owner # repo # kind # rf # split_on CHR ''/'' path) 2 = Some kind"
    by (simp add: js_index_def)
  have d4: "drop 4 (owner # repo # kind # rf # split_on CHR ''/'' path) = split_on CHR ''/'' path"
    by simp
  have l: "\<not> length (owner # repo # kind # rf # split_on CHR ''/'' path) < 2"
    by simp
  have tb: "(Some kind = Some ''tree'' \<or> Some kind = Some ''blob'') = True"
    using k by simp
  have "parseGitHubUrl url =
          Some \<lparr>repoUrl = ''https://github.com/'' @ owner @ ''/'' @ repo @ ''.git'',
                repoRef = js_index (owner # repo # kind # rf # split_on CHR ''/'' path) 3,
                repoSubdir = Some (if path \<noteq> [] \<and> endsWith path ''SKILL.md''
                                   then path_dirname path else path)\<rparr>"
    unfolding parseGitHubUrl_def tl seg Let_def i2 d4 j tb
    by (simp only: l if_False if_True nth_Cons_0 nth_Cons_Suc One_nat_def)
  moreover have "given (Some (if path \<noteq> [] \<and> endsWith path ''SKILL.md''
                                   then path_dirname path else path))"
    using path by (simp add: given_Some path_dirname_not_Nil)
  ultimately show ?thesis by simp
qed

text \<open>
  C7. The caller supplies \<open>--subdir\<close> (the option is present and not empty), and the input is
  a GitHub URL whose path encodes a subdirectory: it starts with \<open>http://\<close> or \<open>https://\<close>, the
  URL constructor reads it as host \<open>github.com\<close> with the path
  \<open>/<owner>/<repo>/tree/<ref>/<path>\<close> or \<open>/<owner>/<repo>/blob/<ref>/<path>\<close>, where \<open><path>\<close>
  is not empty. Then source resolution fails with the configuration error and leaves the
  world as it was: no file-system call, no temporary directory, no \<open>git\<close>.
\<close>

theorem resolveSkillSource_ambiguous_subdir:
  assumes "given sub"
    and "startsWith input ''http://'' \<or> startsWith input ''https://''"
    and "url_constructor rt input = Some url"
    and "hostname url = ''github.com''"
    and "pathname url = ''/'' @ owner @ ''/'' @ repo @ ''/'' @ kind @ ''/'' @ rf @ ''/'' @ path"
    and "CHR ''/'' \<notin> set owner" "CHR ''/'' \<notin> set repo" "CHR ''/'' \<notin> set rf"
    and "kind = ''tree'' \<or> kind = ''blob''"
    and "path \<noteq> []"
  shows "resolveSkillSource rt input sub branch w =
           (Inl (Error ''Provide either --subdir or a repo URL with a path, not both''), w)"
proof -
  obtain spec where spec: "parseGitHubUrl url = Some spec" "given (repoSubdir spec)"
    using parseGitHubUrl_tree[OF assms(5-10)] by blast
  have ne: "input \<noteq> []"
    using assms(2) by (auto simp: startsWith_def)
  have "parseRepoSpec (url_constructor rt) input = Some spec"
    unfolding parseRepoSpec_def using assms(2,3,4) spec(1) ne by auto
  then show ?thesis
    unfolding resolveSkillSource_def using assms(1) spec(2) by simp
qed

text \<open>With \<open>--subdir skills/y\<close> and the URL \<open>https://github.com/o/r/tree/main/skills/x\<close>.\<close>

theorem resolveSkillSource_ambiguous_subdir_witness:
  "resolveSkillSource example_runtime ''https://github.com/o/r/tree/main/skills/x''
     (Some ''skills/y'') None example_world =
   (Inl (Error ''Provide either --subdir or a repo URL with a path, not both''), example_world)"
proof -
  have u: "url_constructor example_runtime ''https://github.com/o/r/tree/main/skills/x'' =
           Some \<lparr>hostname = ''github.com'', pathname = ''/o/r/tree/main/skills/x''\<rparr>"
    unfolding example_runtime_def by code_simp
  have s: "startsWith ''https://github.com/o/r/tree/main/skills/x'' ''http://'' \<or>
           startsWith ''https://github.com/o/r/tree/main/skills/x'' ''https://''"
    by code_simp
  show ?thesis
    by (rule resolveSkillSource_ambiguous_subdir[OF _ s u, where owner = "''o''" and repo = "''r''"
          and kind = "''tree''" and rf = "''main''" and path = "''skills/x''"])
       (simp_all add: given_def)
qed

section \<open>Runs: proofs\<close>

text \<open>
  C8 (as amended). With both \<open>--force\<close> and \<open>--merge\<close>, a run that was given a skill path
  fails with the configuration error and leaves the world as it was: no file-system call,
  no source resolution, no target. A run that was given no skill path shows the help and
  exits instead, and the file tree is untouched as well.
\<close>

theorem runInstall_force_merge:
  assumes "force opts" "merge opts"
  shows "runInstall rt opts w =
           (if given (skillPath opts)
            then (Failed (Error ''--force and --merge cannot be used together''), w)
            else (HelpExit, emit Help w))"
  using assms by (simp add: runInstall_def)

text \<open>With the skill path \<open>o/r\<close> and both flags.\<close>

theorem runInstall_force_merge_witness:
  "runInstall example_runtime (example_options\<lparr>force := True, merge := True\<rparr>) example_world =
     (Failed (Error ''--force and --merge cannot be used together''), example_world)"
proof -
  have g: "given (skillPath (example_options\<lparr>force := True, merge := True\<rparr>)) = True"
    by (simp add: example_options_def given_def)
  have f: "force (example_options\<lparr>force := True, merge := True\<rparr>)"
    "merge (example_options\<lparr>force := True, merge := True\<rparr>)"
    by simp_all
  show ?thesis
    using runInstall_force_merge[OF f, of example_runtime example_world]
    by (simp only: g if_True)
qed

text \<open>
  C8, counterexample: with both flags and no skill path the run ends by showing the help,
  not by the configuration error.
\<close>

theorem runInstall_force_merge_without_skill:
  "fst (runInstall example_runtime
          (example_options\<lparr>skillPath := None, force := True, merge := True\<rparr>) example_world)
     = HelpExit"
  by (simp add: runInstall_def given_def)

lemma isRepoLike_http:
  "startsWith input ''http://'' \<or> startsWith input ''https://'' \<Longrightarrow> isRepoLike input"
  by (auto simp: isRepoLike_def startsWith_def)

lemma parseRepoSpec_unparseable:
  "startsWith input ''http://'' \<or> startsWith input ''https://'' \<Longrightarrow> new_URL input = None
     \<Longrightarrow> parseRepoSpec new_URL input = None"
  by (auto simp: parseRepoSpec_def startsWith_def)

lemma trace_emit: "trace (emit ev w) = trace w @ [ev]"
  by (simp add: emit_def)

lemma resolveSkillDirFromBase_trace:
  "\<exists>evs. trace (snd (resolveSkillDirFromBase ps base sub w)) = trace w @ evs"
  by (auto simp: resolveSkillDirFromBase_def Let_def fs_stat_def trace_emit
           split: option.splits node.splits)

lemma resolveSkillSource_local_first_event:
  assumes "parseRepoSpec (url_constructor rt) p = None"
  shows "take (Suc (length (trace w))) (trace (snd (resolveSkillSource rt p sub branch w))) =
           trace w @ [Stat p]"
proof -
  obtain evs where evs:
    "trace (snd (resolveSkillDirFromBase rt p (if given sub then sub else None) (emit (Stat p) w))) =
       trace w @ [Stat p] @ evs"
    using resolveSkillDirFromBase_trace[of rt p "if given sub then sub else None" "emit (Stat p) w"]
    by (auto simp: trace_emit)
  show ?thesis
    unfolding resolveSkillSource_def assms
    using evs
    by (auto simp: fs_stat_def trace_emit split: option.splits node.splits prod.splits sum.splits)
qed

text \<open>
  C10, counterexample: the input \<open>http://\<close> is no URL, and the working directory of the
  example world holds a directory \<open>http:\<close>, which \<open>stat("http://")\<close> finds: the run fails with
  \<open>SKILL.md not found\<close>, not with \<open>Skill path not found\<close>. With both \<open>--force\<close> and \<open>--merge\<close>
  it fails with the configuration error.
\<close>

theorem runInstall_unparseable_url_existing_path:
  "isRepoLike ''http://''
   \<and> parseRepoSpec (url_constructor example_runtime) ''http://'' = None
   \<and> fst (runInstall example_runtime (example_options\<lparr>skillPath := Some ''http://''\<rparr>) example_world)
       = Failed (Error ''SKILL.md not found in http://'')
   \<and> fst (runInstall example_runtime
             (example_options\<lparr>skillPath := Some ''http://'', force := True, merge := True\<rparr>)
             example_world)
       = Failed (Error ''--force and --merge cannot be used together'')"
  unfolding example_runtime_def example_world_def example_options_def by code_simp

text \<open>
  C1, on the failing inputs: a run on \<open>o/r\<close> creates the clone directory
  \<open>/tmp/agent-skill-abc123\<close>; when \<open>git\<close> exits with code 128, and when the clone succeeds
  but holds no \<open>SKILL.md\<close>, the run fails and the directory is still there: no \<open>rm\<close> was
  done, because \<open>resolveSkillSource\<close> is called before the \<open>try\<close> block whose \<open>finally\<close> runs
  the cleanup.
\<close>

theorem runInstall_leaves_clone_dir:
  "lookup (root example_world) [''tmp'', ''agent-skill-abc123''] = None
   \<and> runInstall example_runtime example_options example_world =
       (Failed (Error ''git exited with code 128''),
        \<lparr>root = Dir [(''tmp'', Dir [(''agent-skill-abc123'', Dir [])]),
                     (''home'', Dir [(''u'', Dir [])]),
                     (''work'', Dir [(''http:'', Dir [])])],
         trace = [Mkdtemp ''/tmp/agent-skill-'',
                  Spawn ''git'' [''clone'', ''--depth'', ''1'', ''https://github.com/o/r.git'',
                                 ''/tmp/agent-skill-abc123'']]\<rparr>)
   \<and> runInstall (example_runtime\<lparr>git_client := (\<lambda>args. Exited 0 [(''README.md'', File ''hello'')])\<rparr>)
         example_options example_world =
       (Failed (Error ''SKILL.md not found in /tmp/agent-skill-abc123''),
        \<lparr>root = Dir [(''tmp'', Dir [(''agent-skill-abc123'', Dir [(''README.md'', File ''hello'')])]),
                     (''home'', Dir [(''u'', Dir [])]),
                     (''work'', Dir [(''http:'', Dir [])])],
         trace = [Mkdtemp ''/tmp/agent-skill-'',
                  Spawn ''git'' [''clone'', ''--depth'', ''1'', ''https://github.com/o/r.git'',
                                 ''/tmp/agent-skill-abc123''],
                  Stat ''/tmp/agent-skill-abc123/SKILL.md'']\<rparr>)"
  unfolding example_runtime_def example_world_def example_options_def by code_simp

section \<open>Copying trees: proofs\<close>

lemma lookup_Dir_Cons:
  "lookup (Dir es) (s # ss) = (case map_of es s of None \<Rightarrow> None | Some n \<Rightarrow> lookup n ss)"
  by simp

lemma lookup_update_same: "lookup (Dir (AList.update k v es)) (k # q) = lookup v q"
  by (simp add: AList.update_conv')

lemma lookup_update_other:
  "k' \<noteq> k \<Longrightarrow> lookup (Dir (AList.update k v es)) (k' # q) = lookup (Dir es) (k' # q)"
  by (simp add: AList.update_conv')

lemma map_of_not_in_names: "k \<notin> fst ` set es \<Longrightarrow> map_of es k = None"
  by (simp add: map_of_eq_None_iff)

text \<open>What lies outside the source stays as it was, whether the copy completes or not.\<close>

lemma cp_frame:
  "well_formed s \<Longrightarrow> lookup s p = None \<Longrightarrow>
     lookup (fst (cp_item s d)) p = (case d of None \<Rightarrow> None | Some n \<Rightarrow> lookup n p)"
  "well_formed_entries ss \<Longrightarrow> lookup (Dir ss) p = None \<Longrightarrow>
     lookup (Dir (fst (cp_entries ss ds))) p = lookup (Dir ds) p"
proof (induction s d and ss ds arbitrary: p and p rule: cp_item_cp_entries.induct)
  case (1 c)
  then show ?case by simp
next
  case (2 c c')
  then show ?case by (cases p) simp_all
next
  case (3 c ds)
  then show ?case by simp
next
  case (4 ss)
  then have "lookup (Dir (fst (cp_entries ss []))) p = lookup (Dir []) p" by simp
  moreover have "lookup (Dir []) p = None" using 4(3) by (cases p) simp_all
  ultimately show ?case by (simp add: split_beta)
next
  case (5 ss c')
  then show ?case by simp
next
  case (6 ss ds)
  then show ?case by (simp add: split_beta)
next
  case (7 ds)
  then show ?case by simp
next
  case (8 name s ss ds)
  obtain d' e where st: "cp_item s (map_of ds name) = (d', e)" by (cases "cp_item s (map_of ds name)")
  from "8.prems" have wf: "name \<notin> fst ` set ss" "well_formed s" "well_formed_entries ss" by simp_all
  from "8.prems"(2) obtain k q where p: "p = k # q" by (cases p) simp_all
  have first: "lookup (Dir (AList.update name d' ds)) p = lookup (Dir ds) p"
  proof (cases "k = name")
    case True
    with "8.prems"(2) p have "lookup s q = None" by simp
    from "8.IH"(1)[OF wf(2) this] st have "lookup d' q = (case map_of ds name of None \<Rightarrow> None | Some n \<Rightarrow> lookup n q)"
      by simp
    then show ?thesis using True p by (simp add: AList.update_conv')
  next
    case False
    then show ?thesis using p by (simp add: AList.update_conv')
  qed
  show ?case
  proof (cases e)
    case (Some err)
    then show ?thesis using st first by simp
  next
    case None
    have rest: "lookup (Dir ss) p = None"
    proof (cases "k = name")
      case True
      then show ?thesis using p wf(1) by (simp add: map_of_not_in_names)
    next
      case False
      then show ?thesis using "8.prems"(2) p by simp
    qed
    have "lookup (Dir (fst (cp_entries ss (AList.update name d' ds)))) p =
          lookup (Dir (AList.update name d' ds)) p"
      using "8.IH"(2)[OF st[symmetric] None wf(3) rest] by simp
    then show ?thesis using st None first by simp
  qed
qed


text \<open>When the copy completes, every file of the source is in the result with its contents.\<close>

lemma cp_copies:
  "well_formed s \<Longrightarrow> snd (cp_item s d) = None \<Longrightarrow> lookup s p = Some (File c) \<Longrightarrow>
     lookup (fst (cp_item s d)) p = Some (File c)"
  "well_formed_entries ss \<Longrightarrow> snd (cp_entries ss ds) = None \<Longrightarrow> lookup (Dir ss) p = Some (File c) \<Longrightarrow>
     lookup (Dir (fst (cp_entries ss ds))) p = Some (File c)"
proof (induction s d and ss ds arbitrary: p and p rule: cp_item_cp_entries.induct)
  case (1 c)
  then show ?case by simp
next
  case (2 c c')
  then show ?case by (cases p) simp_all
next
  case (3 c ds)
  then show ?case by simp
next
  case (4 ss)
  from "4.prems"(3) have "p \<noteq> []" by (cases p) simp_all
  then show ?case using 4 by (simp add: split_beta)
next
  case (5 ss c')
  then show ?case by simp
next
  case (6 ss ds)
  from "6.prems"(3) have "p \<noteq> []" by (cases p) simp_all
  then show ?case using 6 by (simp add: split_beta)
next
  case (7 ds)
  then show ?case by (cases p) simp_all
next
  case (8 name s ss ds)
  obtain d' e where st: "cp_item s (map_of ds name) = (d', e)" by (cases "cp_item s (map_of ds name)")
  from "8.prems" have wf: "name \<notin> fst ` set ss" "well_formed s" "well_formed_entries ss" by simp_all
  from "8.prems"(2) st have e: "e = None" by (cases e) simp_all
  from "8.prems"(2) st e have ok: "snd (cp_entries ss (AList.update name d' ds)) = None" by simp
  from "8.prems"(3) obtain k q where p: "p = k # q" by (cases p) simp_all
  have res: "fst (cp_entries ((name, s) # ss) ds) = fst (cp_entries ss (AList.update name d' ds))"
    using st e by simp
  show ?case
  proof (cases "k = name")
    case True
    with "8.prems"(3) p have sq: "lookup s q = Some (File c)" by simp
    have "lookup d' q = Some (File c)"
      using "8.IH"(1)[OF wf(2) _ sq] st e by simp
    moreover have "lookup (Dir ss) p = None"
      using True p wf(1) by (simp add: map_of_not_in_names)
    then have "lookup (Dir (fst (cp_entries ss (AList.update name d' ds)))) p =
               lookup (Dir (AList.update name d' ds)) p"
      by (rule cp_frame(2)[OF wf(3)])
    ultimately show ?thesis using True p res by (simp add: AList.update_conv')
  next
    case False
    with "8.prems"(3) p have "lookup (Dir ss) p = Some (File c)" by simp
    from "8.IH"(2)[OF st[symmetric] e wf(3) ok this] show ?thesis using res by simp
  qed
qed

lemma compatible_entries_update:
  "name \<notin> fst ` set ss \<Longrightarrow>
     compatible_entries ss (AList.update name x ds) = compatible_entries ss ds"
  by (induction ss) (auto simp: AList.update_conv')

lemma compatible_entries_empty: "compatible_entries ss []"
  by (induction ss) auto

text \<open>The copy completes when source and destination are compatible.\<close>

lemma cp_completes:
  "well_formed s \<Longrightarrow> compatible s d \<Longrightarrow> snd (cp_item s d) = None"
  "well_formed_entries ss \<Longrightarrow> compatible_entries ss ds \<Longrightarrow> snd (cp_entries ss ds) = None"
proof (induction s d and ss ds rule: cp_item_cp_entries.induct)
  case (4 ss)
  then show ?case by (simp add: split_beta compatible_entries_empty)
next
  case (6 ss ds)
  then show ?case by (simp add: split_beta)
next
  case (8 name s ss ds)
  obtain d' e where st: "cp_item s (map_of ds name) = (d', e)" by (cases "cp_item s (map_of ds name)")
  from "8.prems" have wf: "name \<notin> fst ` set ss" "well_formed s" "well_formed_entries ss"
    and co: "compatible s (map_of ds name)" "compatible_entries ss ds" by simp_all
  have e: "e = None" using "8.IH"(1)[OF wf(2) co(1)] st by simp
  have "compatible_entries ss (AList.update name d' ds)"
    using co(2) wf(1) by (simp add: compatible_entries_update)
  from "8.IH"(2)[OF st[symmetric] e wf(3) this] show ?case using st e by simp
qed simp_all

section \<open>Copying in the world: proofs\<close>

lemma lookup_append:
  "lookup t (a @ b) = (case lookup t a of None \<Rightarrow> None | Some n \<Rightarrow> lookup n b)"
proof (induction t a rule: lookup.induct)
  case (1 n)
  show ?case by simp
next
  case (2 c s ss)
  show ?case by simp
next
  case (3 es s ss)
  then show ?case by (cases "map_of es s") simp_all
qed

lemma lookup_put:
  "lookup t D \<noteq> None \<Longrightarrow> lookup (put t D n) (D @ p) = lookup n p"
proof (induction t D n rule: put.induct)
  case (1 t n)
  show ?case by simp
next
  case (2 c s ss n)
  then show ?case by simp
next
  case (3 es s n)
  show ?case by (simp add: AList.update_conv')
next
  case (4 es s s' ss n)
  then show ?case by (cases "map_of es s") (simp_all add: AList.update_conv')
qed

lemma mkdir_p_existing:
  "lookup t D = Some (Dir es) \<Longrightarrow> mkdir_p t D = Inr t"
proof (induction t D rule: mkdir_p.induct)
  case (1 c)
  then show ?case by simp
next
  case (2 c s ss)
  then show ?case by simp
next
  case (3 ds)
  then show ?case by simp
next
  case (4 ds s ss)
  then obtain child where c: "map_of ds s = Some child" "lookup child ss = Some (Dir es)"
    by (cases "map_of ds s") simp_all
  have "mkdir_p child ss = Inr child" using 4(1)[of] c by simp
  then show ?case using c by (simp add: AList.update_triv)
qed

lemma lookup_butlast:
  "lookup t D = Some n \<Longrightarrow> D \<noteq> [] \<Longrightarrow> \<exists>es. lookup t (butlast D) = Some (Dir es)"
proof (induction t D rule: lookup.induct)
  case (1 n)
  then show ?case by simp
next
  case (2 c s ss)
  then show ?case by simp
next
  case (3 es s ss)
  then show ?case by (cases "map_of es s"; cases ss) auto
qed

lemma is_prefix_refl: "is_prefix xs xs"
  by (simp add: is_prefix_def)

lemma put_snoc:
  "lookup t D = Some (Dir ds) \<Longrightarrow> put t (D @ [name]) n = put t D (Dir (AList.update name n ds))"
proof (induction t D arbitrary: ds rule: lookup.induct)
  case (1 n)
  then show ?case by simp
next
  case (2 c s ss)
  then show ?case by simp
next
  case (3 es s ss)
  then obtain child where c: "map_of es s = Some child" "lookup child ss = Some (Dir ds)"
    by (cases "map_of es s") simp_all
  show ?case
  proof (cases ss)
    case Nil
    then show ?thesis using c by simp
  next
    case (Cons s' ss')
    have "put child (ss @ [name]) n = put child ss (Dir (AList.update name n ds))"
      using 3(1)[OF c(1) c(2)] .
    then show ?thesis using c Cons by simp
  qed
qed

lemma put_put: "put (put t D x) D y = put t D y"
proof (induction t D x rule: put.induct)
  case (1 t n)
  show ?case by simp
next
  case (2 c s ss n)
  show ?case by simp
next
  case (3 es s n)
  show ?case by (simp add: AList.update_last)
next
  case (4 es s s' ss n)
  then show ?case by (cases "map_of es s") (simp_all add: AList.update_conv' AList.update_last)
qed

lemma put_other:
  "\<not> is_prefix P Q \<Longrightarrow> \<not> is_prefix Q P \<Longrightarrow> lookup (put t P n) Q = lookup t Q"
proof (induction t P n arbitrary: Q rule: put.induct)
  case (1 t n)
  then show ?case by (simp add: is_prefix_def)
next
  case (2 c s ss n)
  show ?case by simp
next
  case (3 es s n)
  then obtain k q where Q: "Q = k # q" by (cases Q) (simp_all add: is_prefix_def)
  with 3 have "k \<noteq> s" by (auto simp: is_prefix_def)
  then show ?case using Q by (simp add: AList.update_conv')
next
  case (4 es s s' ss n)
  then obtain k q where Q: "Q = k # q" by (cases Q) (simp_all add: is_prefix_def)
  show ?case
  proof (cases "k = s")
    case False
    then show ?thesis using Q by (cases "map_of es s") (simp_all add: AList.update_conv')
  next
    case True
    show ?thesis
    proof (cases "map_of es s")
      case None
      then show ?thesis by simp
    next
      case (Some child)
      have a: "\<not> is_prefix (s' # ss) q" "\<not> is_prefix q (s' # ss)"
        using 4(2,3) Q True by (auto simp: is_prefix_def)
      show ?thesis using 4(1)[OF Some a] Some Q True by (simp add: AList.update_conv')
    qed
  qed
qed

lemma put_same: "lookup t D = Some n \<Longrightarrow> put t D n = t"
proof (induction t D n rule: put.induct)
  case (1 t n)
  then show ?case by simp
next
  case (2 c s ss n)
  then show ?case by simp
next
  case (3 es s n)
  then show ?case by (cases "map_of es s") (simp_all add: AList.update_triv)
next
  case (4 es s s' ss n)
  then show ?case by (cases "map_of es s") (simp_all add: AList.update_triv)
qed

lemma lookup_put_new:
  assumes "lookup t (butlast D) = Some (Dir ps)" "D \<noteq> []"
  shows "lookup (put t D n) (D @ p) = lookup n p"
proof -
  obtain X x where D: "D = X @ [x]" using assms(2) by (metis append_butlast_last_id)
  have "put t D n = put t X (Dir (AList.update x n ps))"
    using assms(1) D by (simp add: put_snoc)
  moreover have "lookup (put t X (Dir (AList.update x n ps))) (X @ ([x] @ p)) =
                 lookup (Dir (AList.update x n ps)) ([x] @ p)"
    by (rule lookup_put) (use assms(1) D in simp)
  ultimately show ?thesis using D by (simp add: AList.update_conv')
qed

lemma is_prefix_iff: "is_prefix xs ys = (\<exists>r. ys = xs @ r)"
proof
  assume "is_prefix xs ys"
  then have "ys = xs @ drop (length xs) ys"
    unfolding is_prefix_def by (metis append_take_drop_id)
  then show "\<exists>r. ys = xs @ r" ..
next
  assume "\<exists>r. ys = xs @ r"
  then show "is_prefix xs ys" by (auto simp: is_prefix_def)
qed

lemma is_prefix_snoc:
  assumes "is_prefix (S @ [n]) (D @ [m])" "S \<noteq> D"
  shows "is_prefix S D"
proof -
  from assms(1) obtain r where r: "D @ [m] = S @ [n] @ r" by (auto simp: is_prefix_iff)
  show ?thesis
  proof (cases r rule: rev_cases)
    case Nil
    then show ?thesis using r assms(2) by simp
  next
    case (snoc r' x)
    then have "D = S @ [n] @ r'" using r by (metis append_assoc butlast_snoc)
    then show ?thesis by (auto simp: is_prefix_iff)
  qed
qed

lemma lookup_child: "lookup t S = Some (Dir ss) \<Longrightarrow> lookup t (S @ [n]) = map_of ss n"
  by (cases "map_of ss n") (simp_all add: lookup_append)

lemma well_formed_entries_map_of:
  "well_formed_entries ss \<Longrightarrow> (n, x) \<in> set ss \<Longrightarrow> map_of ss n = Some x"
  by (induction ss) (auto simp: rev_image_eqI)

lemma lookup_children:
  assumes "lookup t S = Some (Dir ss)" "well_formed_entries ss"
  shows "\<forall>(n, x) \<in> set ss. lookup t (S @ [n]) = Some x"
  using assms by (auto simp: lookup_child well_formed_entries_map_of)

lemma incomparable_child:
  assumes "\<not> is_prefix S D" "\<not> is_prefix D S"
  shows "\<not> is_prefix (D @ [m]) (S @ [n])" "\<not> is_prefix (S @ [n]) (D @ [m])"
proof -
  have ne: "S \<noteq> D" using assms(1) is_prefix_refl by metis
  show "\<not> is_prefix (D @ [m]) (S @ [n])" using is_prefix_snoc[of D m S n] ne assms(2) by metis
  show "\<not> is_prefix (S @ [n]) (D @ [m])" using is_prefix_snoc[of S n D m] ne assms(1) by metis
qed

text \<open>The copy of a source that the copy does not write to.\<close>

lemma copy_snapshot:
  "lookup t S = Some s \<Longrightarrow> lookup t D = d \<Longrightarrow> well_formed s \<Longrightarrow> height s \<le> k \<Longrightarrow>
   \<not> is_prefix S D \<Longrightarrow> \<not> is_prefix D S \<Longrightarrow> lookup t (butlast D) = Some (Dir ps) \<Longrightarrow>
     (case checkPaths t S D of Some e \<Rightarrow> (t, Some e) | None \<Rightarrow> getStatsForCopy k S D t)
       = (put t D (fst (cp_item s d)), snd (cp_item s d))"
  "\<forall>(n, x) \<in> set ss. lookup t (S @ [n]) = Some x \<Longrightarrow> lookup t D = Some (Dir ds) \<Longrightarrow>
   well_formed_entries ss \<Longrightarrow> height_entries ss \<le> k \<Longrightarrow>
   \<not> is_prefix S D \<Longrightarrow> \<not> is_prefix D S \<Longrightarrow>
     cp_copyDir k S D (map fst ss) t
       = (put t D (Dir (fst (cp_entries ss ds))), snd (cp_entries ss ds))"
proof (induction s d and ss ds arbitrary: k S D t ps and k S D t rule: cp_item_cp_entries.induct)
  case (1 c)
  have "S \<noteq> D" using 1(5) is_prefix_refl by metis
  then show ?case using 1 by (simp add: checkPaths_def)
next
  case (2 c c')
  have "S \<noteq> D" using 2(5) is_prefix_refl by metis
  then show ?case using 2 by (simp add: checkPaths_def)
next
  case (3 c ds)
  have "S \<noteq> D" using 3(5) is_prefix_refl by metis
  then show ?case using 3 by (simp add: checkPaths_def put_same)
next
  case (4 ss)
  have ne: "S \<noteq> D" using 4(6) is_prefix_refl by metis
  have D: "D \<noteq> []" using 4(7) by (auto simp: is_prefix_def)
  have wf: "well_formed_entries ss" using 4(4) by simp
  let ?t1 = "put t D (Dir [])"
  have src: "\<forall>(n, x) \<in> set ss. lookup ?t1 (S @ [n]) = Some x"
  proof (clarify)
    fix n x assume nx: "(n, x) \<in> set ss"
    have sx: "lookup t (S @ [n]) = Some x"
      using lookup_children[OF 4(2) wf] nx by auto
    have a: "\<not> is_prefix D (S @ [n])"
    proof
      assume "is_prefix D (S @ [n])"
      then obtain r where r: "S @ [n] = D @ r" by (auto simp: is_prefix_iff)
      show False
      proof (cases r rule: rev_cases)
        case Nil
        then have "lookup t D = lookup t (S @ [n])" using r by simp
        then show False using 4(3) sx by simp
      next
        case (snoc r' y)
        then have "S = D @ r'" using r by (metis append_assoc butlast_snoc)
        then show False using 4(7) by (auto simp: is_prefix_iff)
      qed
    qed
    have b: "\<not> is_prefix (S @ [n]) D"
      using 4(6) by (auto simp: is_prefix_iff)
    show "lookup ?t1 (S @ [n]) = Some x"
      using put_other[OF a b] sx by simp
  qed
  have dst: "lookup ?t1 D = Some (Dir [])"
    using lookup_put_new[OF 4(8) D, of "Dir []" "[]"] by simp
  have h: "height_entries ss \<le> k" using 4(5) by simp
  have "\<not> is_prefix S D" "\<not> is_prefix D S" using 4(6,7) .
  then have "lookup ?t1 S = lookup t S" using put_other by metis
  then have rd: "readdir ?t1 S = map fst ss" using 4(2) by (simp add: readdir_def)
  have "cp_copyDir k S D (map fst ss) ?t1 =
          (put ?t1 D (Dir (fst (cp_entries ss []))), snd (cp_entries ss []))"
    using 4(1)[OF src dst wf h 4(6,7)] .
  then show ?case using 4(2,3) ne 4(6) rd by (simp add: checkPaths_def put_put split_beta)
next
  case (5 ss c')
  have "S \<noteq> D" using 5(5) is_prefix_refl by metis
  then show ?case using 5 by (simp add: checkPaths_def put_same)
next
  case (6 ss ds)
  have ne: "S \<noteq> D" using 6(6) is_prefix_refl by metis
  have wf: "well_formed_entries ss" using 6(4) by simp
  have h: "height_entries ss \<le> k" using 6(5) by simp
  have d: "lookup t D = Some (Dir ds)" using 6(3) .
  have "cp_copyDir k S D (map fst ss) t =
          (put t D (Dir (fst (cp_entries ss ds))), snd (cp_entries ss ds))"
    using 6(1)[OF lookup_children[OF 6(2) wf] d wf h 6(6,7)] .
  moreover have "readdir t S = map fst ss" using 6(2) by (simp add: readdir_def)
  ultimately show ?case using 6(2,3) ne 6(6) by (simp add: checkPaths_def split_beta)
next
  case (7 ds)
  then show ?case by (simp add: put_same)
next
  case (8 name s ss ds)
  let ?S = "S @ [name]" and ?D = "D @ [name]"
  obtain d' e where st: "cp_item s (map_of ds name) = (d', e)"
    by (cases "cp_item s (map_of ds name)")
  from "8.prems"(3) have wf: "well_formed s" "well_formed_entries ss" by simp_all
  from "8.prems"(4) obtain k' where k: "k = Suc k'" and hs: "height s \<le> k'"
    and hss: "height_entries ss \<le> k"
    by (cases k) simp_all
  have sS: "lookup t ?S = Some s" using "8.prems"(1) by simp
  have dD: "lookup t ?D = map_of ds name" using "8.prems"(2) by (rule lookup_child)
  have par: "lookup t (butlast ?D) = Some (Dir ds)" using "8.prems"(2) by simp
  note inc = incomparable_child[OF "8.prems"(5,6)]
  have step: "(case checkPaths t ?S ?D of Some e \<Rightarrow> (t, Some e)
               | None \<Rightarrow> getStatsForCopy k' ?S ?D t) = (put t ?D d', e)"
    using "8.IH"(1)[OF sS dD wf(1) hs inc(2)[of name name] inc(1)[of name name] par] st by simp
  let ?ds' = "AList.update name d' ds"
  have t': "put t ?D d' = put t D (Dir ?ds')"
    using "8.prems"(2) by (rule put_snoc)
  show ?case
  proof (cases e)
    case (Some err)
    have "cp_copyDir k S D (name # map fst ss) t = (put t ?D d', Some err)"
      using step Some k by (cases "checkPaths t ?S ?D") (auto simp del: getStatsForCopy.simps)
    then show ?thesis using st Some t' by simp
  next
    case None
    have c: "checkPaths t ?S ?D = None"
      using step None by (cases "checkPaths t ?S ?D") simp_all
    have g: "getStatsForCopy k' ?S ?D t = (put t D (Dir ?ds'), None)"
      using step None c t' by simp
    have run: "cp_copyDir k S D (name # map fst ss) t = cp_copyDir k S D (map fst ss) (put t D (Dir ?ds'))"
      using c g k by (simp del: getStatsForCopy.simps)
    have src: "\<forall>(n, x) \<in> set ss. lookup (put t D (Dir ?ds')) (S @ [n]) = Some x"
    proof (clarify)
      fix n x assume nx: "(n, x) \<in> set ss"
      have "lookup (put t ?D d') (S @ [n]) = lookup t (S @ [n])"
        using put_other[OF inc(1)[of name n] inc(2)[of n name]] .
      then show "lookup (put t D (Dir ?ds')) (S @ [n]) = Some x"
        using nx "8.prems"(1) t' by auto
    qed
    have dst: "lookup (put t D (Dir ?ds')) D = Some (Dir ?ds')"
      using lookup_put[of t D "Dir ?ds'" "[]"] "8.prems"(2) by simp
    have "cp_copyDir k S D (map fst ss) (put t D (Dir ?ds')) =
            (put (put t D (Dir ?ds')) D (Dir (fst (cp_entries ss ?ds'))), snd (cp_entries ss ?ds'))"
      using "8.IH"(2)[OF st[symmetric] None src dst wf(2) hss "8.prems"(5,6)] .
    then show ?thesis using run st None by (simp add: put_put)
  qed
qed

lemma put_paths:
  "lookup (put t Y n) q \<noteq> None \<Longrightarrow> lookup t q \<noteq> None \<or> (\<exists>x. q = Y @ x \<and> lookup n x \<noteq> None)"
proof (induction t Y n arbitrary: q rule: put.induct)
  case (1 t n)
  then show ?case by simp
next
  case (2 c s ss n)
  then show ?case by simp
next
  case (3 es s n)
  show ?case
  proof (cases q)
    case Nil
    then show ?thesis by simp
  next
    case (Cons k q')
    then show ?thesis using 3 by (cases "k = s") (simp_all add: AList.update_conv')
  qed
next
  case (4 es s s' ss n)
  show ?case
  proof (cases "map_of es s")
    case None
    then show ?thesis using 4(2) by simp
  next
    case (Some child)
    show ?thesis
    proof (cases q)
      case Nil
      then show ?thesis by simp
    next
      case (Cons k q')
      show ?thesis
      proof (cases "k = s")
        case False
        then show ?thesis using 4(2) Some Cons by (simp add: AList.update_conv')
      next
        case True
        then have "lookup (put child (s' # ss) n) q' \<noteq> None"
          using 4(2) Some Cons by (simp add: AList.update_conv')
        from 4(1)[OF Some this] show ?thesis using Some Cons True by auto
      qed
    qed
  qed
qed

lemma checkPaths_code: "checkPaths t S D \<noteq> Some (SystemError ''ELOOP'')"
  by (simp add: checkPaths_def split: option.splits node.splits)

lemma checkPaths_None:
  assumes "checkPaths t S D = None"
  shows "lookup t S \<noteq> None" "lookup t S = Some (Dir ss) \<Longrightarrow> \<not> is_prefix S D"
  using assms by (auto simp: checkPaths_def split: option.splits node.splits if_splits)

lemma above_shorter:
  assumes "S @ z = D @ y" "\<not> is_prefix S D"
  shows "length z < length y"
proof (rule ccontr)
  assume "\<not> length z < length y"
  then have "length S \<le> length D" using arg_cong[OF assms(1), of length] by simp
  then have "take (length S) D = S"
    using arg_cong[OF assms(1), of "take (length S)"] by simp
  then show False using assms(2) by (simp add: is_prefix_def)
qed

text \<open>
  The copy does not descend below the depth of the source: where no path below \<open>S\<close> is
  longer than \<open>k\<close>, the bound \<open>k\<close> is not met, and what the copy adds to the tree lies below
  \<open>D\<close>, no deeper than \<open>k\<close>.
\<close>

lemma copy_depth_bound:
  "getStatsForCopy k S D t = (t', e) \<Longrightarrow> \<forall>z. lookup t (S @ z) \<noteq> None \<longrightarrow> length z \<le> k \<Longrightarrow>
   \<forall>ss. lookup t S = Some (Dir ss) \<longrightarrow> \<not> is_prefix S D \<Longrightarrow>
     e \<noteq> Some (SystemError ''ELOOP'') \<and>
     (\<forall>q. lookup t' q \<noteq> None \<longrightarrow> lookup t q \<noteq> None \<or> (\<exists>x. q = D @ x \<and> length x \<le> k))"
  "cp_copyDir k S D names t = (t', e) \<Longrightarrow> \<forall>z. lookup t (S @ z) \<noteq> None \<longrightarrow> length z \<le> k \<Longrightarrow>
   \<not> is_prefix S D \<Longrightarrow>
     e \<noteq> Some (SystemError ''ELOOP'') \<and>
     (\<forall>q. lookup t' q \<noteq> None \<longrightarrow> lookup t q \<noteq> None \<or> (\<exists>x. q = D @ x \<and> length x \<le> k))"
proof (induction k S D t and k S D names t arbitrary: t' e and t' e
       rule: getStatsForCopy_cp_copyDir.induct)
  case (1 k S D t)
  note run = "1.prems"(1) and bnd = "1.prems"(2) and dirp = "1.prems"(3)
  show ?case
  proof (cases "lookup t S")
    case None
    then show ?thesis using run by auto
  next
    case (Some s)
    show ?thesis
    proof (cases s)
      case (File c)
      then have t': "t' = put t D (File c)" and e: "e = None" using run Some by auto
      have "lookup t q \<noteq> None \<or> (\<exists>x. q = D @ x \<and> length x \<le> k)" if "lookup t' q \<noteq> None" for q
      proof -
        from put_paths[OF that[unfolded t']]
        consider "lookup t q \<noteq> None" | x where "q = D @ x" "lookup (File c) x \<noteq> None" by blast
        then show ?thesis
        proof cases
          case 1
          then show ?thesis by simp
        next
          case 2
          then have "x = []" by (cases x) simp_all
          then show ?thesis using 2 by auto
        qed
      qed
      then show ?thesis using e by blast
    next
      case (Dir ss)
      then have S: "lookup t S = Some (Dir ss)" using Some by simp
      have np: "\<not> is_prefix S D" using dirp S by blast
      define t1 where "t1 = (if lookup t D = None then put t D (Dir []) else t)"
      have r1: "cp_copyDir k S D (readdir t1 S) t1 = (t', e)"
        using run S by (simp add: t1_def Let_def)
      have grow1: "lookup t q \<noteq> None \<or> q = D" if "lookup t1 q \<noteq> None" for q
      proof (cases "lookup t D = None")
        case False
        then have "t1 = t" unfolding t1_def by (simp only: if_False)
        then show ?thesis using that by simp
      next
        case True
        then have "t1 = put t D (Dir [])" unfolding t1_def by simp
        then have "lookup (put t D (Dir [])) q \<noteq> None" using that by simp
        from put_paths[OF this]
        consider "lookup t q \<noteq> None" | x where "q = D @ x" "lookup (Dir []) x \<noteq> None" by blast
        then show ?thesis
        proof cases
          case 1
          then show ?thesis by simp
        next
          case 2
          then have "x = []" by (cases x) simp_all
          then show ?thesis using 2 by simp
        qed
      qed
      have bnd1: "\<forall>z. lookup t1 (S @ z) \<noteq> None \<longrightarrow> length z \<le> k"
      proof (intro allI impI)
        fix z assume "lookup t1 (S @ z) \<noteq> None"
        from grow1[OF this] show "length z \<le> k"
        proof
          assume "lookup t (S @ z) \<noteq> None"
          then show ?thesis using bnd by blast
        next
          assume "S @ z = D"
          then have "is_prefix S D" by (auto simp: is_prefix_iff)
          then show ?thesis using np by simp
        qed
      qed
      from "1.IH"[OF Some Dir t1_def r1 bnd1 np]
      have e: "e \<noteq> Some (SystemError ''ELOOP'')"
        and g: "\<forall>q. lookup t' q \<noteq> None \<longrightarrow> lookup t1 q \<noteq> None \<or> (\<exists>x. q = D @ x \<and> length x \<le> k)"
        by blast+
      have "lookup t q \<noteq> None \<or> (\<exists>x. q = D @ x \<and> length x \<le> k)" if "lookup t' q \<noteq> None" for q
      proof -
        from g that have "lookup t1 q \<noteq> None \<or> (\<exists>x. q = D @ x \<and> length x \<le> k)" by blast
        then show ?thesis
        proof
          assume "lookup t1 q \<noteq> None"
          from grow1[OF this] show ?thesis by (metis append_Nil2 le0 list.size(3))
        qed simp
      qed
      then show ?thesis using e by blast
    qed
  qed
next
  case (2 k S D t)
  then show ?case by simp
next
  case (3 k S D name names t)
  note run = "3.prems"(1) and bnd = "3.prems"(2) and np = "3.prems"(3)
  let ?S = "S @ [name]" and ?D = "D @ [name]"
  show ?case
  proof (cases "checkPaths t ?S ?D")
    case (Some e0)
    then have "t' = t" "e = Some e0" using run by simp_all
    then show ?thesis using checkPaths_code[of t ?S ?D] Some by auto
  next
    case None
    have "lookup t (S @ [name]) \<noteq> None" using checkPaths_None(1)[OF None] .
    then have "length [name] \<le> k" using bnd by blast
    then obtain k' where k: "k = Suc k'" by (cases k) simp_all
    obtain t1 e1 where g: "getStatsForCopy k' ?S ?D t = (t1, e1)"
      by (cases "getStatsForCopy k' ?S ?D t")
    have bnd': "\<forall>z. lookup t (?S @ z) \<noteq> None \<longrightarrow> length z \<le> k'"
    proof (intro allI impI)
      fix z assume "lookup t (?S @ z) \<noteq> None"
      then have "lookup t (S @ (name # z)) \<noteq> None" by simp
      then have "length (name # z) \<le> k" using bnd by blast
      then show "length z \<le> k'" using k by simp
    qed
    have dirp': "\<forall>ss. lookup t ?S = Some (Dir ss) \<longrightarrow> \<not> is_prefix ?S ?D"
      using checkPaths_None(2)[OF None] by blast
    from "3.IH"(1)[OF None k g bnd' dirp']
    have e1: "e1 \<noteq> Some (SystemError ''ELOOP'')"
      and g1: "\<forall>q. lookup t1 q \<noteq> None \<longrightarrow> lookup t q \<noteq> None \<or> (\<exists>x. q = ?D @ x \<and> length x \<le> k')"
      by blast+
    have g1': "lookup t q \<noteq> None \<or> (\<exists>x. q = D @ x \<and> length x \<le> k)" if "lookup t1 q \<noteq> None" for q
    proof -
      from g1 that have "lookup t q \<noteq> None \<or> (\<exists>x. q = ?D @ x \<and> length x \<le> k')" by blast
      then show ?thesis
      proof
        assume "\<exists>x. q = ?D @ x \<and> length x \<le> k'"
        then obtain x where "q = D @ (name # x)" "length (name # x) \<le> k" using k by auto
        then show ?thesis by blast
      qed simp
    qed
    show ?thesis
    proof (cases e1)
      case (Some err)
      then have "t' = t1" "e = e1" using run None k g by (simp_all del: getStatsForCopy.simps)
      then show ?thesis using e1 g1' by blast
    next
      case e1None: None
      have r2: "cp_copyDir k S D names t1 = (t', e)"
        using run None k g e1None by (simp del: getStatsForCopy.simps)
      have bnd1: "\<forall>z. lookup t1 (S @ z) \<noteq> None \<longrightarrow> length z \<le> k"
      proof (intro allI impI)
        fix z assume "lookup t1 (S @ z) \<noteq> None"
        from g1'[OF this] show "length z \<le> k"
        proof
          assume "lookup t (S @ z) \<noteq> None"
          then show ?thesis using bnd by blast
        next
          assume "\<exists>x. S @ z = D @ x \<and> length x \<le> k"
          then obtain x where x: "S @ z = D @ x" "length x \<le> k" by blast
          from above_shorter[OF x(1) np] x(2) show ?thesis by simp
        qed
      qed
      from "3.IH"(2)[OF None k g[symmetric] e1None r2 bnd1 np]
      have e: "e \<noteq> Some (SystemError ''ELOOP'')"
        and g2: "\<forall>q. lookup t' q \<noteq> None \<longrightarrow> lookup t1 q \<noteq> None \<or> (\<exists>x. q = D @ x \<and> length x \<le> k)"
        by blast+
      have "lookup t q \<noteq> None \<or> (\<exists>x. q = D @ x \<and> length x \<le> k)" if "lookup t' q \<noteq> None" for q
        using g2 g1' that by blast
      then show ?thesis using e by blast
    qed
  qed
qed

lemma height_child: "map_of es k = Some n \<Longrightarrow> Suc (height n) \<le> height_entries es"
  by (induction es) (auto split: if_splits)

lemma height_bound: "lookup s z \<noteq> None \<Longrightarrow> length z \<le> height s"
proof (induction s z rule: lookup.induct)
  case (1 n)
  then show ?case by simp
next
  case (2 c s ss)
  then show ?case by simp
next
  case (3 es s ss)
  then obtain n where n: "map_of es s = Some n" "lookup n ss \<noteq> None"
    by (cases "map_of es s") simp_all
  from 3(1)[OF n] height_child[OF n(1)] show ?case by simp
qed

lemma mkdir_p_code: "mkdir_p t P \<noteq> Inl (SystemError ''ELOOP'')"
proof (induction t P rule: mkdir_p.induct)
  case (4 es s ss)
  then show ?case by (auto split: sum.splits option.splits)
qed simp_all

text \<open>\<open>mkdir\<close> leaves the regular files as they are, and the directories directories.\<close>

lemma mkdir_p_files:
  "mkdir_p t P = Inr t' \<Longrightarrow> (lookup t' q = Some (File c)) = (lookup t q = Some (File c))"
proof (induction t P arbitrary: t' q rule: mkdir_p.induct)
  case (1 c)
  then show ?case by simp
next
  case (2 c s ss)
  then show ?case by simp
next
  case (3 es)
  then show ?case by simp
next
  case (4 es s ss)
  let ?child = "case map_of es s of None \<Rightarrow> Dir [] | Some child \<Rightarrow> child"
  from 4(2) obtain child' where c: "mkdir_p ?child ss = Inr child'"
    and t': "t' = Dir (AList.update s child' es)"
    by (cases "mkdir_p ?child ss") auto
  show ?case
  proof (cases q)
    case Nil
    then show ?thesis using t' by simp
  next
    case (Cons k q')
    show ?thesis
    proof (cases "k = s")
      case False
      then show ?thesis using t' Cons by (simp add: AList.update_conv')
    next
      case True
      have "(lookup child' q' = Some (File c)) = (lookup ?child q' = Some (File c))"
        using 4(1)[OF c] .
      moreover have "(lookup ?child q' = Some (File c)) = (lookup (Dir es) (s # q') = Some (File c))"
        by (cases "map_of es s"; cases q') simp_all
      ultimately show ?thesis using t' Cons True by (simp add: AList.update_conv')
    qed
  qed
qed

lemma mkdir_p_dirs:
  "mkdir_p t P = Inr t' \<Longrightarrow> lookup t q = Some (Dir es) \<Longrightarrow> \<exists>es'. lookup t' q = Some (Dir es')"
proof (induction t P arbitrary: t' q es rule: mkdir_p.induct)
  case (1 c)
  then show ?case by simp
next
  case (2 c s ss)
  then show ?case by simp
next
  case (3 ds)
  then show ?case by simp
next
  case (4 ds s ss)
  let ?child = "case map_of ds s of None \<Rightarrow> Dir [] | Some child \<Rightarrow> child"
  from 4(2) obtain child' where c: "mkdir_p ?child ss = Inr child'"
    and t': "t' = Dir (AList.update s child' ds)"
    by (cases "mkdir_p ?child ss") auto
  show ?case
  proof (cases q)
    case Nil
    then show ?thesis using t' by simp
  next
    case (Cons k q')
    show ?thesis
    proof (cases "k = s")
      case False
      then show ?thesis using t' Cons 4(3) by (simp add: AList.update_conv')
    next
      case True
      then have "lookup ?child q' = Some (Dir es)"
        using 4(3) Cons by (cases "map_of ds s") simp_all
      from 4(1)[OF c this] show ?thesis using t' Cons True by (simp add: AList.update_conv')
    qed
  qed
qed

lemma well_formed_entries_update:
  "well_formed_entries es \<Longrightarrow> well_formed n \<Longrightarrow> well_formed_entries (AList.update k n es)"
  by (induction es) (force simp: AList.dom_update)+

lemma well_formed_entries_child:
  "well_formed_entries es \<Longrightarrow> map_of es k = Some n \<Longrightarrow> well_formed n"
  by (induction es) (auto split: if_splits)

lemma mkdir_p_well_formed:
  "well_formed t \<Longrightarrow> mkdir_p t P = Inr t' \<Longrightarrow> well_formed t'"
proof (induction t P arbitrary: t' rule: mkdir_p.induct)
  case (1 c)
  then show ?case by simp
next
  case (2 c s ss)
  then show ?case by simp
next
  case (3 es)
  then show ?case by auto
next
  case (4 es s ss)
  let ?child = "case map_of es s of None \<Rightarrow> Dir [] | Some child \<Rightarrow> child"
  from 4(3) obtain child' where c: "mkdir_p ?child ss = Inr child'"
    and t': "t' = Dir (AList.update s child' es)"
    by (cases "mkdir_p ?child ss") auto
  have "well_formed ?child"
    using 4(2) by (cases "map_of es s") (simp_all add: well_formed_entries_child)
  from 4(1)[OF this c] show ?case using 4(2) t' by (simp add: well_formed_entries_update)
qed

lemma lookup_well_formed: "well_formed t \<Longrightarrow> lookup t q = Some n \<Longrightarrow> well_formed n"
proof (induction t q rule: lookup.induct)
  case (1 n)
  then show ?case by simp
next
  case (2 c s ss)
  then show ?case by simp
next
  case (3 es s ss)
  then show ?case by (cases "map_of es s") (auto simp: well_formed_entries_child)
qed

text \<open>The bound on the depth of the copy is never met.\<close>

lemma copy_depth: "fst (fs_cp ps src dest w) \<noteq> Inl (SystemError ''ELOOP'')"
proof -
  let ?S = "fs_path ps src" and ?D = "fs_path ps dest"
  show ?thesis
  proof (cases "checkPaths (root w) ?S ?D")
    case (Some e0)
    then show ?thesis using checkPaths_code[of "root w" ?S ?D] by (simp add: fs_cp_def Let_def)
  next
    case None
    show ?thesis
    proof (cases "mkdir_p (root w) (butlast ?D)")
      case (Inl e0)
      then show ?thesis using None mkdir_p_code[of "root w" "butlast ?D"]
        by (simp add: fs_cp_def Let_def)
    next
      case (Inr t)
      obtain t' e where g: "getStatsForCopy (height_at t ?S) ?S ?D t = (t', e)"
        by (cases "getStatsForCopy (height_at t ?S) ?S ?D t")
      have bnd: "\<forall>z. lookup t (?S @ z) \<noteq> None \<longrightarrow> length z \<le> height_at t ?S"
      proof (intro allI impI)
        fix z assume z: "lookup t (?S @ z) \<noteq> None"
        then obtain s where s: "lookup t ?S = Some s" "lookup s z \<noteq> None"
          by (cases "lookup t ?S") (simp_all add: lookup_append)
        then show "length z \<le> height_at t ?S" using height_bound by (simp add: height_at_def)
      qed
      have dirp: "\<forall>ss. lookup t ?S = Some (Dir ss) \<longrightarrow> \<not> is_prefix ?S ?D"
      proof (intro allI impI)
        fix ss assume d: "lookup t ?S = Some (Dir ss)"
        from checkPaths_None(1)[OF None] obtain s0 where s0: "lookup (root w) ?S = Some s0" by blast
        show "\<not> is_prefix ?S ?D"
        proof (cases s0)
          case (File c)
          then have "lookup t ?S = Some (File c)" using mkdir_p_files[OF Inr] s0 by simp
          then show ?thesis using d by simp
        next
          case (Dir ss0)
          then show ?thesis using checkPaths_None(2)[OF None] s0 by simp
        qed
      qed
      from copy_depth_bound(1)[OF g bnd dirp] have "e \<noteq> Some (SystemError ''ELOOP'')" by blast
      then show ?thesis using None Inr g
        by (cases e) (simp_all add: fs_cp_def Let_def del: getStatsForCopy.simps)
    qed
  qed
qed

text \<open>
  A regular file of the destination stays where the source has no regular file,
  whether the copy completes or not.
\<close>

lemma cp_keeps:
  "well_formed s \<Longrightarrow> d = Some dn \<Longrightarrow> lookup dn p = Some (File c) \<Longrightarrow>
   \<forall>c'. lookup s p \<noteq> Some (File c') \<Longrightarrow> lookup (fst (cp_item s d)) p = Some (File c)"
  "well_formed_entries ss \<Longrightarrow> lookup (Dir ds) p = Some (File c) \<Longrightarrow>
   \<forall>c'. lookup (Dir ss) p \<noteq> Some (File c') \<Longrightarrow>
     lookup (Dir (fst (cp_entries ss ds))) p = Some (File c)"
proof (induction s d and ss ds arbitrary: p dn and p rule: cp_item_cp_entries.induct)
  case (1 c0)
  then show ?case by simp
next
  case (2 c0 c')
  then show ?case by (cases p) auto
next
  case (3 c0 ds)
  then show ?case by auto
next
  case (4 ss)
  then show ?case by simp
next
  case (5 ss c')
  then show ?case by auto
next
  case (6 ss ds)
  then show ?case by (auto simp: split_beta)
next
  case (7 ds)
  then show ?case by simp
next
  case (8 name s ss ds)
  obtain d' e where st: "cp_item s (map_of ds name) = (d', e)" by (cases "cp_item s (map_of ds name)")
  from "8.prems" have wf: "name \<notin> fst ` set ss" "well_formed s" "well_formed_entries ss" by simp_all
  from "8.prems"(2) obtain k q where p: "p = k # q" by (cases p) simp_all
  have first: "lookup (Dir (AList.update name d' ds)) p = Some (File c)"
  proof (cases "k = name")
    case True
    from "8.prems"(2) p True obtain dn where dn: "map_of ds name = Some dn" "lookup dn q = Some (File c)"
      by (cases "map_of ds name") simp_all
    have "\<forall>c'. lookup s q \<noteq> Some (File c')" using "8.prems"(3) p True by simp
    from "8.IH"(1)[OF wf(2) dn this] st have "lookup d' q = Some (File c)" by simp
    then show ?thesis using True p by (simp add: AList.update_conv')
  next
    case False
    then show ?thesis using p "8.prems"(2) by (simp add: AList.update_conv')
  qed
  show ?case
  proof (cases e)
    case (Some err)
    then show ?thesis using st first by simp
  next
    case None
    have rest: "\<forall>c'. lookup (Dir ss) p \<noteq> Some (File c')"
    proof (cases "k = name")
      case True
      then show ?thesis using p wf(1) by (simp add: map_of_not_in_names)
    next
      case False
      then show ?thesis using "8.prems"(3) p by simp
    qed
    from "8.IH"(2)[OF st[symmetric] None wf(3) first rest] show ?thesis using st None by simp
  qed
qed

lemma path_normalize_not_Nil: "path_normalize p \<noteq> []"
  by (simp add: path_normalize_def Let_def)

lemma path_join_not_Nil: "path_join args \<noteq> []"
  by (simp add: path_join_def path_normalize_not_Nil split: list.splits)

lemma copyDir_existing:
  assumes d: "lookup (root w) (fs_path ps targetDir) = Some (Dir ds)"
    and run: "copyDir ps sourceDir targetDir w = (r, w')"
  shows "(\<exists>e. checkPaths (root w) (fs_path ps sourceDir) (fs_path ps targetDir) = Some e \<and>
              r = Inl e \<and> root w' = root w)
       \<or> (checkPaths (root w) (fs_path ps sourceDir) (fs_path ps targetDir) = None \<and>
          (\<exists>t' e. getStatsForCopy (height_at (root w) (fs_path ps sourceDir))
                     (fs_path ps sourceDir) (fs_path ps targetDir) (root w) = (t', e) \<and>
                   r = (case e of None \<Rightarrow> Inr () | Some err \<Rightarrow> Inl err) \<and> root w' = t'))"
proof -
  let ?S = "fs_path ps sourceDir" and ?D = "fs_path ps targetDir"
  have m: "mkdir_p (root w) ?D = Inr (root w)"
    using d by (rule mkdir_p_existing)
  have "\<exists>es. lookup (root w) (butlast ?D) = Some (Dir es)"
  proof (cases "?D = []")
    case True
    then show ?thesis using d by simp
  next
    case False
    then show ?thesis using d lookup_butlast by blast
  qed
  then have mb: "mkdir_p (root w) (butlast ?D) = Inr (root w)"
    using mkdir_p_existing by blast
  have mk: "fs_mkdir ps targetDir w = (Inr (), emit (Mkdir targetDir) w)"
    by (simp add: fs_mkdir_def m)
  have r: "root (emit (Mkdir targetDir) w) = root w"
    by (simp add: emit_def)
  have cp: "fs_cp ps sourceDir targetDir (emit (Mkdir targetDir) w) = (r, w')"
    using run unfolding copyDir_def mk by simp
  show ?thesis
  proof (cases "checkPaths (root w) ?S ?D")
    case (Some e)
    then show ?thesis using cp by (auto simp: fs_cp_def Let_def r emit_def)
  next
    case None
    obtain t' e where g: "getStatsForCopy (height_at (root w) ?S) ?S ?D (root w) = (t', e)"
      by (cases "getStatsForCopy (height_at (root w) ?S) ?S ?D (root w)")
    then show ?thesis using cp None mb
      by (auto simp: fs_cp_def Let_def r emit_def simp del: getStatsForCopy.simps)
  qed
qed

lemma merge_steps:
  assumes d: "lookup (root w) (fs_path rt (path_join [baseDir target, skillName])) = Some (Dir ds)"
    and act: "merged \<or> \<not> forced \<and>
              inquirer rt (label target) (path_join [baseDir target, skillName]) = Inr Merge"
    and run: "installTarget rt forced merged dir skillName target w = (r, w')"
  shows "(\<exists>e. mkdir_p (root w) (fs_path rt (baseDir target)) = Inl e \<and> r = Inl e \<and> root w' = root w)
       \<or> (\<exists>t1 w3 wc. mkdir_p (root w) (fs_path rt (baseDir target)) = Inr t1 \<and> root w3 = t1 \<and>
            copyDir rt dir (path_join [baseDir target, skillName]) w3 = (r, wc) \<and> root w' = root wc)"
proof -
  let ?tdir = "path_join [baseDir target, skillName]"
  let ?T = "fs_path rt (baseDir target)"
  show ?thesis
  proof (cases "mkdir_p (root w) ?T")
    case (Inl e)
    then have "fs_mkdir rt (baseDir target) w = (Inl e, emit (Mkdir (baseDir target)) w)"
      by (simp add: fs_mkdir_def)
    then have "installTarget rt forced merged dir skillName target w =
               (Inl e, emit (Mkdir (baseDir target)) w)"
      by (simp add: installTarget_def Let_def)
    then show ?thesis using run Inl by (auto simp: emit_def)
  next
    case (Inr t1)
    define w1 where "w1 = emit (Mkdir (baseDir target)) (w\<lparr>root := t1\<rparr>)"
    define w2 where "w2 = emit (Access ?tdir) w1"
    define w3 where "w3 = (if merged then w2 else emit (Prompt (label target) ?tdir) w2)"
    have m1: "fs_mkdir rt (baseDir target) w = (Inr (), w1)"
      using Inr by (simp add: fs_mkdir_def w1_def)
    have r1: "root w1 = t1" "root w2 = t1" "root w3 = t1"
      by (simp_all add: w1_def w2_def w3_def emit_def)
    obtain ds1 where d1: "lookup t1 (fs_path rt ?tdir) = Some (Dir ds1)"
      using mkdir_p_dirs[OF Inr d] by blast
    have "fs_find rt t1 ?tdir = Some (Dir ds1)"
      using d1 path_join_not_Nil[of "[baseDir target, skillName]"] by (simp add: fs_find_def)
    then have pe: "pathExists rt ?tdir w1 = (True, w2)"
      by (simp add: pathExists_def r1 w2_def)
    have ch: "(if True \<and> \<not> forced \<and> \<not> merged
               then promptConflictAction rt (label target) ?tdir w2
               else if True \<and> merged then (Inr Merge, w2)
               else (Inr Overwrite, w2)) = (Inr Merge, w3)"
      using act by (auto simp: promptConflictAction_def w3_def)
    obtain rc wc where c: "copyDir rt dir ?tdir w3 = (rc, wc)"
      by (cases "copyDir rt dir ?tdir w3")
    have "installTarget rt forced merged dir skillName target w =
            (case rc of Inl e \<Rightarrow> (Inl e, wc)
             | Inr u \<Rightarrow> (Inr (), emit (Log (''Merged ('' @ label target @ '') -> '' @ ?tdir)) wc))"
      unfolding installTarget_def Let_def m1 prod.case sum.case pe ch ConflictAction.case c
      by (rule refl)
    then have "r = rc \<and> root w' = root wc"
      using run by (cases rc) (auto simp: emit_def)
    then show ?thesis using Inr r1(3) c by blast
  qed
qed

lemma checkPaths_dirs:
  assumes "lookup t S = Some (Dir ss)" "lookup t D = Some (Dir ds)"
  shows "checkPaths t S D = (if is_prefix S D then Some (SystemError ''ERR_FS_CP_EINVAL'') else None)"
  using assms is_prefix_refl[of S] by (auto simp: checkPaths_def)

text \<open>
  C6 (as amended). The merge action of the installer, for a target whose skill directory
  \<open>D\<close> exists, from a skill source \<open>S\<close> that is a directory and does not lie inside \<open>D\<close>
  (it may be \<open>D\<close> itself), in a tree in which no listing names an entry twice. The action
  is taken with the flag \<open>--merge\<close>, or without \<open>--force\<close> when the prompt answers \<open>merge\<close>.
  Then, for every path \<open>p\<close> below the destination: a regular file of the destination at
  \<open>p\<close>, where the source has no regular file, is after the install what it was before,
  whether the copy completes or not; when the install completes, every regular file of the
  source at \<open>p\<close> is in the destination with the source's contents; and the install completes
  when no path is a directory on one side and a regular file on the other, the destination
  does not lie inside the source, and the target's base directory exists.
\<close>

theorem installTarget_merge:
  assumes wf: "well_formed (root w)"
    and s: "lookup (root w) (fs_path rt dir) = Some (Dir ss)"
    and d: "lookup (root w) (fs_path rt (path_join [baseDir target, skillName])) = Some (Dir ds)"
    and out: "fs_path rt dir = fs_path rt (path_join [baseDir target, skillName]) \<or>
              \<not> is_prefix (fs_path rt (path_join [baseDir target, skillName])) (fs_path rt dir)"
    and act: "merged \<or> \<not> forced \<and>
              inquirer rt (label target) (path_join [baseDir target, skillName]) = Inr Merge"
    and run: "installTarget rt forced merged dir skillName target w = (r, w')"
  shows "(lookup (root w) (fs_path rt (path_join [baseDir target, skillName]) @ p) = Some (File c) \<and>
          \<not> file_at (root w) (fs_path rt dir @ p) \<longrightarrow>
            lookup (root w') (fs_path rt (path_join [baseDir target, skillName]) @ p) = Some (File c))
       \<and> (r = Inr () \<and> lookup (root w) (fs_path rt dir @ p) = Some (File c) \<longrightarrow>
            lookup (root w') (fs_path rt (path_join [baseDir target, skillName]) @ p) = Some (File c))
       \<and> (compatible (Dir ss) (Some (Dir ds)) \<and>
          \<not> is_prefix (fs_path rt dir) (fs_path rt (path_join [baseDir target, skillName])) \<and>
          dir_at (root w) (fs_path rt (baseDir target)) \<longrightarrow> r = Inr ())"
proof -
  let ?S = "fs_path rt dir"
  let ?tdir = "path_join [baseDir target, skillName]"
  let ?D = "fs_path rt ?tdir"
  let ?T = "fs_path rt (baseDir target)"
  have base: "mkdir_p (root w) ?T = Inr (root w)" if "dir_at (root w) ?T"
  proof -
    from that obtain bs where "lookup (root w) ?T = Some (Dir bs)"
      by (auto simp: dir_at_def split: option.splits node.splits)
    then show ?thesis by (rule mkdir_p_existing)
  qed
  from merge_steps[OF d act run]
  consider (failed) e where "mkdir_p (root w) ?T = Inl e" "r = Inl e" "root w' = root w"
    | (copied) t1 w3 wc where "mkdir_p (root w) ?T = Inr t1" "root w3 = t1"
        "copyDir rt dir ?tdir w3 = (r, wc)" "root w' = root wc"
    by blast
  then show ?thesis
  proof cases
    case failed
    then show ?thesis using base by auto
  next
    case copied
    note mk = copied(1)
    have files: "(lookup t1 q = Some (File c')) = (lookup (root w) q = Some (File c'))" for q c'
      using mkdir_p_files[OF mk] .
    obtain ss1 where s1: "lookup t1 ?S = Some (Dir ss1)" using mkdir_p_dirs[OF mk s] by blast
    obtain ds1 where d1: "lookup t1 ?D = Some (Dir ds1)" using mkdir_p_dirs[OF mk d] by blast
    have wf1: "well_formed (Dir ss1)"
      using lookup_well_formed[OF mkdir_p_well_formed[OF wf mk] s1] .
    have same: "ss1 = ss \<and> ds1 = ds" if "dir_at (root w) ?T"
      using base[OF that] mk s d s1 d1 by simp
    have dst: "lookup (Dir ds1) p = lookup t1 (?D @ p)"
      using d1 by (simp add: lookup_append)
    have src: "lookup (Dir ss1) p = lookup t1 (?S @ p)"
      using s1 by (simp add: lookup_append)
    have d3: "lookup (root w3) ?D = Some (Dir ds1)" using d1 copied(2) by simp
    from copyDir_existing[OF d3 copied(3)] copied(2)
    consider (refused) e where "checkPaths t1 ?S ?D = Some e" "r = Inl e" "root wc = t1"
      | (ran) t' e where "checkPaths t1 ?S ?D = None"
          "getStatsForCopy (height_at t1 ?S) ?S ?D t1 = (t', e)"
          "r = (case e of None \<Rightarrow> Inr () | Some err \<Rightarrow> Inl err)" "root wc = t'"
      by auto
    then show ?thesis
    proof cases
      case refused
      have "lookup (root w') (?D @ p) = Some (File c)" if "lookup (root w) (?D @ p) = Some (File c)"
        using that files refused(3) copied(4) by simp
      moreover have "r = Inr ()"
        if "\<not> is_prefix ?S ?D" "dir_at (root w) ?T"
        using refused(1) checkPaths_dirs[OF s1 d1] that(1) by simp
      ultimately show ?thesis using refused(2) by auto
    next
      case ran
      have np: "\<not> is_prefix ?S ?D"
        using ran(1) checkPaths_dirs[OF s1 d1] by (auto split: if_splits)
      then have ne: "?S \<noteq> ?D" using is_prefix_refl by metis
      then have np': "\<not> is_prefix ?D ?S" using out by simp
      then have D: "?D \<noteq> []" by (auto simp: is_prefix_def)
      obtain ps where par: "lookup t1 (butlast ?D) = Some (Dir ps)"
        using lookup_butlast[OF d1 D] by blast
      let ?X = "cp_item (Dir ss1) (Some (Dir ds1))"
      have h: "height (Dir ss1) \<le> height_at t1 ?S" using s1 by (simp add: height_at_def)
      have "getStatsForCopy (height_at t1 ?S) ?S ?D t1 = (put t1 ?D (fst ?X), snd ?X)"
        using copy_snapshot(1)[OF s1 d1 wf1 h np np' par] ran(1)
        by (simp del: getStatsForCopy.simps cp_item.simps)
      then have t': "t' = put t1 ?D (fst ?X)" and e: "e = snd ?X" using ran(2) by simp_all
      have at: "lookup (root w') (?D @ p) = lookup (fst ?X) p"
        unfolding copied(4) ran(4) t' by (rule lookup_put) (use d1 in simp)
      have frame: "lookup (root w') (?D @ p) = Some (File c)"
        if a: "lookup (root w) (?D @ p) = Some (File c)" and b: "\<not> file_at (root w) (?S @ p)"
      proof -
        have "lookup (Dir ds1) p = Some (File c)" using a dst files by simp
        moreover have "\<forall>c'. lookup (Dir ss1) p \<noteq> Some (File c')"
          using b src files by (auto simp: file_at_def)
        ultimately show ?thesis
          using cp_keeps(1)[OF wf1 refl, of "Dir ds1" p c] at by simp
      qed
      have ok: "snd ?X = None" if "r = Inr ()"
        using that ran(3) e by (cases "snd ?X") simp_all
      have copied_file: "lookup (root w') (?D @ p) = Some (File c)"
        if a: "r = Inr ()" and b: "lookup (root w) (?S @ p) = Some (File c)"
      proof -
        have "lookup (Dir ss1) p = Some (File c)" using b src files by simp
        from cp_copies(1)[OF wf1 ok[OF a] this] at show ?thesis by simp
      qed
      have completes: "r = Inr ()"
        if a: "compatible (Dir ss) (Some (Dir ds))" and b: "dir_at (root w) ?T"
      proof -
        have "compatible (Dir ss1) (Some (Dir ds1))" using a same[OF b] by simp
        from cp_completes(1)[OF wf1 this] show ?thesis using ran(3) e by simp
      qed
      show ?thesis using frame copied_file completes by blast
    qed
  qed
qed

text \<open>
  In \<open>merge_world\<close>, \<open>keep.txt\<close> is only in the installed skill and \<open>lib/a.txt\<close> is in both.
\<close>

theorem installTarget_merge_witness:
  "lookup (root (snd (installTarget example_runtime False True ''/src'' ''my-skill'' example_target
                        merge_world)))
      [''proj'', ''.claude'', ''skills'', ''my-skill'', ''keep.txt''] = Some (File ''mine'')
   \<and> lookup (root (snd (installTarget example_runtime False True ''/src'' ''my-skill'' example_target
                          merge_world)))
        [''proj'', ''.claude'', ''skills'', ''my-skill'', ''lib'', ''a.txt''] = Some (File ''A2'')
   \<and> fst (installTarget example_runtime False True ''/src'' ''my-skill'' example_target merge_world)
       = Inr ()"
proof -
  let ?ss = "[(''SKILL.md'', File ''new''), (''lib'', Dir [(''a.txt'', File ''A2'')])]"
  let ?ds = "[(''SKILL.md'', File ''old''), (''keep.txt'', File ''mine''),
              (''lib'', Dir [(''a.txt'', File ''A1''), (''b.txt'', File ''B'')])]"
  let ?tdir = "path_join [baseDir example_target, ''my-skill'']"
  obtain r w' where run:
    "installTarget example_runtime False True ''/src'' ''my-skill'' example_target merge_world = (r, w')"
    by (cases "installTarget example_runtime False True ''/src'' ''my-skill'' example_target merge_world")
  have S: "fs_path example_runtime ''/src'' = [''src'']"
    and D: "fs_path example_runtime ?tdir = [''proj'', ''.claude'', ''skills'', ''my-skill'']"
    by code_simp+
  have h: "well_formed (root merge_world)"
    "lookup (root merge_world) (fs_path example_runtime ''/src'') = Some (Dir ?ss)"
    "lookup (root merge_world) (fs_path example_runtime ?tdir) = Some (Dir ?ds)"
    "fs_path example_runtime ''/src'' = fs_path example_runtime ?tdir \<or>
     \<not> is_prefix (fs_path example_runtime ?tdir) (fs_path example_runtime ''/src'')"
    "True \<or> \<not> False \<and> inquirer example_runtime (label example_target) ?tdir = Inr Merge"
    by code_simp+
  have k: "lookup (root merge_world) ([''proj'', ''.claude'', ''skills'', ''my-skill''] @ [''keep.txt''])
             = Some (File ''mine'')"
    "\<not> file_at (root merge_world) ([''src''] @ [''keep.txt''])"
    "lookup (root merge_world) ([''src''] @ [''lib'', ''a.txt'']) = Some (File ''A2'')"
    "compatible (Dir ?ss) (Some (Dir ?ds))"
    "\<not> is_prefix [''src''] [''proj'', ''.claude'', ''skills'', ''my-skill'']"
    "dir_at (root merge_world) (fs_path example_runtime (baseDir example_target))"
    by code_simp+
  note t1 = installTarget_merge[OF h run, of "[''keep.txt'']" "''mine''", unfolded S D]
  note t2 = installTarget_merge[OF h run, of "[''lib'', ''a.txt'']" "''A2''", unfolded S D]
  have "r = Inr ()" using t1 k(4,5,6) by blast
  moreover have "lookup (root w') [''proj'', ''.claude'', ''skills'', ''my-skill'', ''keep.txt'']
                   = Some (File ''mine'')"
    using t1 k(1,2) by simp
  moreover have "lookup (root w') [''proj'', ''.claude'', ''skills'', ''my-skill'', ''lib'', ''a.txt'']
                   = Some (File ''A2'')"
    using t2 k(3) \<open>r = Inr ()\<close> by simp
  ultimately show ?thesis unfolding run by simp
qed

text \<open>
  C6, counterexample. In \<open>clash_world\<close>, \<open>SKILL.md\<close> is a file in both trees, with different
  contents; the copy stops at \<open>docs\<close>, a directory in the source and a regular file in the
  destination, and \<open>SKILL.md\<close> keeps the destination's contents. In \<open>nested_world\<close> the
  source \<open>backup\<close> lies inside the destination \<open>my-skill\<close>, and \<open>docs/notes.md\<close> is a file of
  the destination only. Copying the entry \<open>backup\<close> of the source writes into the source
  itself, and puts \<open>notes.md\<close> into its \<open>docs\<close>; copying the entry \<open>docs\<close> then reads that
  file and replaces \<open>docs/notes.md\<close> of the destination: the install completes, and the file
  that was only in the destination has changed.
\<close>

theorem installTarget_merge_clash_or_nested:
  "lookup (root clash_world) [''src'', ''SKILL.md''] = Some (File ''new'')
   \<and> lookup (root clash_world) [''proj'', ''.claude'', ''skills'', ''my-skill'', ''SKILL.md'']
       = Some (File ''old'')
   \<and> fst (installTarget example_runtime False True ''/src'' ''my-skill'' example_target clash_world)
       = Inl (SystemError ''ERR_FS_CP_DIR_TO_NON_DIR'')
   \<and> lookup (root (snd (installTarget example_runtime False True ''/src'' ''my-skill'' example_target
                          clash_world)))
        [''proj'', ''.claude'', ''skills'', ''my-skill'', ''SKILL.md''] = Some (File ''old'')
   \<and> lookup (root nested_world) [''proj'', ''.claude'', ''skills'', ''my-skill'', ''docs'', ''notes.md'']
       = Some (File ''mine'')
   \<and> lookup (root nested_world)
        [''proj'', ''.claude'', ''skills'', ''my-skill'', ''backup'', ''docs'', ''notes.md''] = None
   \<and> fst (installTarget example_runtime False True ''/proj/.claude/skills/my-skill/backup''
             ''my-skill'' example_target nested_world) = Inr ()
   \<and> lookup (root (snd (installTarget example_runtime False True
                          ''/proj/.claude/skills/my-skill/backup'' ''my-skill'' example_target
                          nested_world)))
        [''proj'', ''.claude'', ''skills'', ''my-skill'', ''docs'', ''notes.md''] = Some (File ''theirs'')"
  by code_simp

section \<open>Paths: proofs\<close>

lemma split_on_elems: "x \<in> set (split_on c s) \<Longrightarrow> c \<notin> set x"
proof (induction s arbitrary: x)
  case Nil
  then show ?case by simp
next
  case (Cons a s)
  obtain w ws where w: "split_on c s = w # ws"
    using split_on_not_Nil[of c s] by (cases "split_on c s") auto
  show ?case
  proof (cases "a = c")
    case True
    then show ?thesis using Cons by auto
  next
    case False
    then have "x = a # w \<or> x \<in> set ws" using Cons.prems w by simp
    then show ?thesis using Cons.IH w False by auto
  qed
qed

lemma split_on_Cons_sep: "split_on c (c # s) = [] # split_on c s"
  by simp

lemma js_join_append:
  "xs \<noteq> [] \<Longrightarrow> ys \<noteq> [] \<Longrightarrow> js_join sep (xs @ ys) = js_join sep xs @ sep @ js_join sep ys"
proof (induction sep xs rule: js_join.induct)
  case (1 sep)
  then show ?case by simp
next
  case (2 sep x)
  then show ?case by (cases ys) simp_all
next
  case (3 sep x y zs)
  then show ?case by simp
qed

lemma split_on_js_join:
  "S \<noteq> [] \<Longrightarrow> (\<And>x. x \<in> set S \<Longrightarrow> c \<notin> set x) \<Longrightarrow> split_on c (js_join [c] S) = S"
proof (induction "[c]" S rule: js_join.induct)
  case 1
  then show ?case by simp
next
  case (2 x)
  then show ?case by (simp add: split_on_no_sep)
next
  case (3 x y ys)
  have "split_on c (x @ c # js_join [c] (y # ys)) = split_on c x @ split_on c (js_join [c] (y # ys))"
    by (rule split_on_append)
  moreover have "split_on c x = [x]" using 3(3)[of x] by (simp add: split_on_no_sep)
  moreover have "split_on c (js_join [c] (y # ys)) = y # ys" using 3 by simp
  ultimately show ?case by simp
qed

lemma normalize_step_plain: "plain_segment s \<Longrightarrow> normalize_step a res s = res @ [s]"
  by (simp add: normalize_step_def plain_segment_def)

lemma normalize_step_empty: "normalize_step a res [] = res"
  by (simp add: normalize_step_def)

lemma normalize_segments_snoc:
  "plain_segment s \<Longrightarrow> normalize_segments a (xs @ [s]) = normalize_segments a xs @ [s]"
  by (simp add: normalize_segments_def normalize_step_plain)

lemma normalize_segments_Nil_Cons: "normalize_segments a ([] # xs) = normalize_segments a xs"
  by (simp add: normalize_segments_def normalize_step_empty)

lemma foldl_normalize_plain:
  "(\<And>x. x \<in> set S \<Longrightarrow> plain_segment x) \<Longrightarrow> foldl (normalize_step a) acc S = acc @ S"
  by (induction S arbitrary: acc) (simp_all add: normalize_step_plain)

lemma normalize_segments_plain:
  "(\<And>x. x \<in> set S \<Longrightarrow> plain_segment x) \<Longrightarrow> normalize_segments a S = S"
  using foldl_normalize_plain[of S a "[]"] by (simp add: normalize_segments_def)

lemma normalize_step_False_set:
  "x \<in> set (normalize_step False res s) \<Longrightarrow> x \<in> set res \<or> (x = s \<and> plain_segment s)"
  by (auto simp: normalize_step_def plain_segment_def dest: in_set_butlastD split: if_splits)

lemma foldl_normalize_False_set:
  "x \<in> set (foldl (normalize_step False) acc xs) \<Longrightarrow>
     x \<in> set acc \<or> (x \<in> set xs \<and> plain_segment x)"
proof (induction xs arbitrary: acc)
  case Nil
  then show ?case by simp
next
  case (Cons s xs)
  from Cons.IH[of "normalize_step False acc s"] Cons.prems
  have "x \<in> set (normalize_step False acc s) \<or> (x \<in> set xs \<and> plain_segment x)" by simp
  then show ?case using normalize_step_False_set[of x acc s] by auto
qed

lemma normalize_segments_False_set:
  "x \<in> set (normalize_segments False xs) \<Longrightarrow> x \<in> set xs \<and> plain_segment x"
  using foldl_normalize_False_set[of x "[]" xs] by (simp add: normalize_segments_def)

text \<open>An absolute, normalised path read again gives its own segments.\<close>

lemma normalize_segments_reread:
  assumes "S = normalize_segments False (split_on CHR ''/'' r)"
  shows "normalize_segments False (split_on CHR ''/'' (js_join ''/'' S)) = S"
proof (cases "S = []")
  case True
  then show ?thesis by (simp add: normalize_segments_def normalize_step_def)
next
  case False
  have el: "\<And>x. x \<in> set S \<Longrightarrow> CHR ''/'' \<notin> set x \<and> plain_segment x"
    using assms normalize_segments_False_set split_on_elems by blast
  have "split_on CHR ''/'' (js_join ''/'' S) = S"
    using split_on_js_join[OF False, of "CHR ''/''"] el by simp
  then show ?thesis using normalize_segments_plain[of S False] el by simp
qed

lemma path_resolve_absolute:
  assumes "isAbsolute wd"
  shows "\<exists>r. path_resolve wd p = ''/'' @ js_join ''/'' (normalize_segments False (split_on CHR ''/'' r))"
proof -
  have "wd \<noteq> []" using assms by (auto simp: isAbsolute_def)
  then have "path_resolve wd p =
      ''/'' @ js_join ''/'' (normalize_segments False (split_on CHR ''/''
        (if p \<noteq> [] \<and> isAbsolute p then p @ ''/''
         else wd @ ''/'' @ (if p = [] then [] else p @ ''/''))))"
    unfolding path_resolve_def Let_def normalizeString_def using assms by simp
  then show ?thesis by blast
qed

text \<open>
  Joining a resolved path \<open>/<S>\<close> with a plain segment and \<open>skills\<close> appends them to its
  segments.
\<close>

lemma path_join_root:
  assumes S: "S = normalize_segments False (split_on CHR ''/'' r)"
    and X: "plain_segment X" "CHR ''/'' \<notin> set X"
  shows "path_join [''/'' @ js_join ''/'' S, X, ''skills''] = ''/'' @ js_join ''/'' (S @ [X, ''skills''])"
proof -
  define joined where "joined = ''/'' @ js_join ''/'' S @ ''/'' @ X @ ''/'' @ ''skills''"
  have Xne: "X \<noteq> []" using X(1) by (simp add: plain_segment_def)
  have sk: "plain_segment ''skills''" by (simp add: plain_segment_def)
  have f: "filter (\<lambda>a. a \<noteq> []) [''/'' @ js_join ''/'' S, X, ''skills''] =
           [''/'' @ js_join ''/'' S, X, ''skills'']"
    using Xne by simp
  have sp: "split_on CHR ''/'' joined = [] # split_on CHR ''/'' (js_join ''/'' S) @ [X, ''skills'']"
  proof -
    have "split_on CHR ''/'' (js_join ''/'' S @ CHR ''/'' # (X @ CHR ''/'' # ''skills'')) =
          split_on CHR ''/'' (js_join ''/'' S) @ split_on CHR ''/'' (X @ CHR ''/'' # ''skills'')"
      by (rule split_on_append)
    moreover have "split_on CHR ''/'' (X @ CHR ''/'' # ''skills'') = [X, ''skills'']"
      using X(2) by (simp add: split_on_append split_on_no_sep)
    ultimately show ?thesis by (simp add: joined_def)
  qed
  have n: "normalize_segments False (split_on CHR ''/'' joined) = S @ [X, ''skills'']"
  proof -
    have "normalize_segments False (split_on CHR ''/'' joined) =
          normalize_segments False ((split_on CHR ''/'' (js_join ''/'' S) @ [X]) @ [''skills''])"
      unfolding sp normalize_segments_Nil_Cons by simp
    also have "\<dots> = normalize_segments False (split_on CHR ''/'' (js_join ''/'' S) @ [X]) @ [''skills'']"
      by (rule normalize_segments_snoc[OF sk])
    also have "normalize_segments False (split_on CHR ''/'' (js_join ''/'' S) @ [X]) =
               normalize_segments False (split_on CHR ''/'' (js_join ''/'' S)) @ [X]"
      by (rule normalize_segments_snoc[OF X(1)])
    finally show ?thesis using normalize_segments_reread[OF S] by simp
  qed
  have ne: "js_join ''/'' (S @ [X, ''skills'']) \<noteq> []"
  proof (cases "S = []")
    case True
    then show ?thesis using Xne by simp
  next
    case False
    then show ?thesis using js_join_append[of S "[X, ''skills'']" "''/''"] by simp
  qed
  have jne: "joined \<noteq> []" by (simp add: joined_def)
  have l: "last joined \<noteq> CHR ''/''" by (simp add: joined_def)
  have a: "isAbsolute joined" by (simp add: isAbsolute_def joined_def)
  have "path_normalize joined = ''/'' @ js_join ''/'' (S @ [X, ''skills''])"
    by (simp add: path_normalize_def Let_def normalizeString_def n l a jne ne)
  then show ?thesis
    unfolding path_join_def f by (simp add: joined_def)
qed


lemma endsWith_append: "endsWith (u @ v) v"
  by (simp add: endsWith_def)

lemma js_join_snoc: "M \<noteq> [] \<Longrightarrow> js_join sep (M @ [x]) = js_join sep M @ sep @ x"
  using js_join_append[of M "[x]" sep] by simp

lemma split_on_snoc_sep: "split_on c (b @ [c]) = split_on c b @ [[]]"
  using split_on_append[of c b "[]"] by simp

lemma last_segment_no_trailing:
  assumes "split_on CHR ''/'' b = zs @ [x]" "x \<noteq> []"
  shows "b \<noteq> [] \<and> last b \<noteq> CHR ''/''"
proof -
  have ne: "b \<noteq> []" using assms by auto
  have "last b \<noteq> CHR ''/''"
  proof
    assume "last b = CHR ''/''"
    then have "b = butlast b @ [CHR ''/'']" using ne by (metis append_butlast_last_id)
    then have "split_on CHR ''/'' b = split_on CHR ''/'' (butlast b) @ [[]]"
      using split_on_snoc_sep[of "CHR ''/''" "butlast b"] by simp
    then show False using assms by simp
  qed
  then show ?thesis using ne by simp
qed

text \<open>A path that ends in a plain segment keeps it as its last segment when normalised.\<close>

lemma path_normalize_last_segment:
  assumes sp: "split_on CHR ''/'' b = zs @ [x]" and x: "plain_segment x"
  shows "path_normalize b \<noteq> [] \<and> (\<exists>ys. split_on CHR ''/'' (path_normalize b) = ys @ [x])"
proof -
  have xne: "x \<noteq> []" using x by (simp add: plain_segment_def)
  have nx: "CHR ''/'' \<notin> set x" using split_on_elems[of x "CHR ''/''" b] sp by simp
  have b: "b \<noteq> []" "last b \<noteq> CHR ''/''" using last_segment_no_trailing[OF sp xne] by simp_all
  define M where "M = normalize_segments (\<not> isAbsolute b) zs"
  have n: "normalize_segments (\<not> isAbsolute b) (split_on CHR ''/'' b) = M @ [x]"
    unfolding sp M_def by (rule normalize_segments_snoc[OF x])
  have jn: "js_join ''/'' (M @ [x]) \<noteq> []"
    using xne js_join_snoc[of M "''/''" x] by (cases "M = []") simp_all
  have r: "path_normalize b =
           (if isAbsolute b then ''/'' @ js_join ''/'' (M @ [x]) else js_join ''/'' (M @ [x]))"
    by (simp add: path_normalize_def Let_def normalizeString_def n b jn)
  have s1: "\<exists>ys. split_on CHR ''/'' (js_join ''/'' (M @ [x])) = ys @ [x]"
  proof (cases "M = []")
    case True
    then show ?thesis using nx by (simp add: split_on_no_sep)
  next
    case False
    have "split_on CHR ''/'' (js_join ''/'' M @ CHR ''/'' # x) = split_on CHR ''/'' (js_join ''/'' M) @ [x]"
      using split_on_append[of "CHR ''/''" "js_join ''/'' M" x] nx by (simp add: split_on_no_sep)
    then show ?thesis using js_join_snoc[OF False, of "''/''" x] by simp
  qed
  then obtain ys where ys: "split_on CHR ''/'' (js_join ''/'' (M @ [x])) = ys @ [x]" by blast
  show ?thesis
  proof (cases "isAbsolute b")
    case True
    then show ?thesis using r ys by simp
  next
    case False
    then show ?thesis using r ys jn by auto
  qed
qed

text \<open>
  After a non-empty path that is absolute or ends in a plain segment, \<open>/skills\<close> stays at the
  end when the whole is normalised.
\<close>

lemma path_normalize_skills:
  assumes "a \<noteq> []"
    and "isAbsolute a \<or> (\<exists>zs x. split_on CHR ''/'' a = zs @ [x] \<and> plain_segment x)"
  shows "endsWith (path_normalize (a @ ''/skills'')) ''/skills''"
proof -
  define al where "al = (\<not> isAbsolute (a @ ''/skills''))"
  define M where "M = normalize_segments al (split_on CHR ''/'' a)"
  have sk: "plain_segment ''skills''" by (simp add: plain_segment_def)
  have ab: "isAbsolute (a @ ''/skills'') = isAbsolute a"
    using assms(1) by (cases a) (simp_all add: isAbsolute_def)
  have sp: "split_on CHR ''/'' (a @ ''/skills'') = split_on CHR ''/'' a @ [''skills'']"
    using split_on_append[of "CHR ''/''" a "''skills''"] by (simp add: split_on_no_sep)
  have n: "normalize_segments al (split_on CHR ''/'' (a @ ''/skills'')) = M @ [''skills'']"
    unfolding sp M_def by (rule normalize_segments_snoc[OF sk])
  have jn: "js_join ''/'' (M @ [''skills'']) \<noteq> []"
    using js_join_snoc[of M "''/''" "''skills''"] by (cases "M = []") simp_all
  have r: "path_normalize (a @ ''/skills'') =
           (if isAbsolute a then ''/'' @ js_join ''/'' (M @ [''skills'']) else js_join ''/'' (M @ [''skills'']))"
    using n jn ab by (simp add: path_normalize_def Let_def normalizeString_def al_def)
  show ?thesis
  proof (cases "M = []")
    case False
    have "js_join ''/'' (M @ [''skills'']) = js_join ''/'' M @ ''/skills''"
      using js_join_snoc[OF False, of "''/''" "''skills''"] by simp
    then show ?thesis
      using r endsWith_append[of "js_join ''/'' M" "''/skills''"]
        endsWith_append[of "''/'' @ js_join ''/'' M" "''/skills''"] by (cases "isAbsolute a") simp_all
  next
    case True
    have "isAbsolute a"
    proof (rule ccontr)
      assume na: "\<not> isAbsolute a"
      then obtain zs x where zx: "split_on CHR ''/'' a = zs @ [x]" "plain_segment x"
        using assms(2) by blast
      have "M = normalize_segments al zs @ [x]"
        unfolding M_def zx(1) by (rule normalize_segments_snoc[OF zx(2)])
      then show False using True by simp
    qed
    then show ?thesis using r True by (simp add: endsWith_def)
  qed
qed

lemma path_join_skills:
  assumes "a \<noteq> []"
    and "isAbsolute a \<or> (\<exists>zs x. split_on CHR ''/'' a = zs @ [x] \<and> plain_segment x)"
  shows "endsWith (path_join [a, ''skills'']) ''/skills''"
proof -
  have "path_join [a, ''skills''] = path_normalize (a @ ''/skills'')"
    using assms(1) by (simp add: path_join_def)
  then show ?thesis using path_normalize_skills[OF assms] by simp
qed

lemma path_join3_skills:
  assumes "plain_segment X" "CHR ''/'' \<notin> set X"
  shows "endsWith (path_join [h, X, ''skills'']) ''/skills''"
proof -
  have xne: "X \<noteq> []" using assms(1) by (simp add: plain_segment_def)
  define a where "a = (if h = [] then X else h @ ''/'' @ X)"
  have ane: "a \<noteq> []" using xne by (simp add: a_def)
  have "\<exists>zs. split_on CHR ''/'' a = zs @ [X]"
  proof (cases "h = []")
    case True
    then show ?thesis using assms(2) by (simp add: a_def split_on_no_sep)
  next
    case False
    then show ?thesis
      using split_on_append[of "CHR ''/''" h X] assms(2) by (simp add: a_def split_on_no_sep)
  qed
  then have c: "isAbsolute a \<or> (\<exists>zs x. split_on CHR ''/'' a = zs @ [x] \<and> plain_segment x)"
    using assms(1) by blast
  have "path_join [h, X, ''skills''] = path_normalize (a @ ''/skills'')"
    using xne by (simp add: path_join_def a_def)
  then show ?thesis using path_normalize_skills[OF ane c] by simp
qed

lemma path_join2_last_segment:
  assumes "plain_segment X" "CHR ''/'' \<notin> set X"
  shows "path_join [h, X] \<noteq> [] \<and> (\<exists>ys. split_on CHR ''/'' (path_join [h, X]) = ys @ [X])"
proof -
  have xne: "X \<noteq> []" using assms(1) by (simp add: plain_segment_def)
  define b where "b = (if h = [] then X else h @ ''/'' @ X)"
  have "\<exists>zs. split_on CHR ''/'' b = zs @ [X]"
  proof (cases "h = []")
    case True
    then show ?thesis using assms(2) by (simp add: b_def split_on_no_sep)
  next
    case False
    then show ?thesis
      using split_on_append[of "CHR ''/''" h X] assms(2) by (simp add: b_def split_on_no_sep)
  qed
  then obtain zs where zs: "split_on CHR ''/'' b = zs @ [X]" by blast
  have "path_join [h, X] = path_normalize b"
    using xne by (simp add: path_join_def b_def)
  then show ?thesis using path_normalize_last_segment[OF zs assms(1)] by simp
qed

lemma path_resolve_isAbsolute: "isAbsolute wd \<Longrightarrow> path_resolve wd p \<noteq> [] \<and> isAbsolute (path_resolve wd p)"
  using path_resolve_absolute[of wd p] by (auto simp: isAbsolute_def)

section \<open>Install targets: proofs\<close>

lemma js_join_plain_not_Nil:
  "S \<noteq> [] \<Longrightarrow> (\<And>x. x \<in> set S \<Longrightarrow> x \<noteq> []) \<Longrightarrow> js_join sep S \<noteq> []"
  by (induction sep S rule: js_join.induct) simp_all

lemma path_join_project:
  assumes wd: "isAbsolute wd" and X: "plain_segment X" "CHR ''/'' \<notin> set X"
  shows "path_join [path_resolve wd d, X, ''skills''] =
           (if path_resolve wd d = ''/'' then [] else path_resolve wd d) @ ''/'' @ X @ ''/skills''"
proof -
  obtain r where r: "path_resolve wd d = ''/'' @ js_join ''/'' (normalize_segments False (split_on CHR ''/'' r))"
    using path_resolve_absolute[OF wd] by blast
  define S where "S = normalize_segments False (split_on CHR ''/'' r)"
  have root: "path_resolve wd d = ''/'' @ js_join ''/'' S" using r by (simp add: S_def)
  have j: "path_join [path_resolve wd d, X, ''skills''] = ''/'' @ js_join ''/'' (S @ [X, ''skills''])"
    unfolding root by (rule path_join_root[OF S_def X])
  show ?thesis
  proof (cases "S = []")
    case True
    then show ?thesis using j root by simp
  next
    case False
    have "\<And>x. x \<in> set S \<Longrightarrow> x \<noteq> []"
      using normalize_segments_False_set[of _ "split_on CHR ''/'' r"] by (auto simp: S_def plain_segment_def)
    then have "js_join ''/'' S \<noteq> []" using False by (rule js_join_plain_not_Nil[rotated])
    then have "path_resolve wd d \<noteq> ''/''" using root by simp
    moreover have "js_join ''/'' (S @ [X, ''skills'']) = js_join ''/'' S @ ''/'' @ X @ ''/skills''"
      using js_join_append[OF False, of "[X, ''skills'']" "''/''"] by simp
    ultimately show ?thesis using j root by simp
  qed
qed

lemma plain_dot_dirs:
  "plain_segment ''.codex''" "CHR ''/'' \<notin> set ''.codex''"
  "plain_segment ''.claude''" "CHR ''/'' \<notin> set ''.claude''"
  "plain_segment ''.gemini''" "CHR ''/'' \<notin> set ''.gemini''"
  by (simp_all add: plain_segment_def)

lemma getInstallTargets_project:
  assumes "isAbsolute (cwd ps)" "d \<noteq> []"
  shows "getInstallTargets ps (Some d) =
           (let projectRoot = path_resolve (cwd ps) d;
                base = (if projectRoot = ''/'' then [] else projectRoot)
            in [\<lparr>label = ''codex-project'', baseDir = base @ ''/.codex/skills''\<rparr>,
                \<lparr>label = ''claude-project'', baseDir = base @ ''/.claude/skills''\<rparr>,
                \<lparr>label = ''gemini-project'', baseDir = base @ ''/.gemini/skills''\<rparr>])"
  using assms(2)
    path_join_project[OF assms(1) plain_dot_dirs(1,2), of d]
    path_join_project[OF assms(1) plain_dot_dirs(3,4), of d]
    path_join_project[OF assms(1) plain_dot_dirs(5,6), of d]
  by (simp add: getInstallTargets_def Let_def)

lemma getInstallTargets_user:
  "getInstallTargets ps None =
     [\<lparr>label = ''codex-user'',
       baseDir = path_join [(case CODEX_HOME ps of
                               None \<Rightarrow> path_join [homedir ps, ''.codex'']
                             | Some e \<Rightarrow> if e = [] then path_join [homedir ps, ''.codex'']
                                         else path_resolve (cwd ps) e), ''skills'']\<rparr>,
      \<lparr>label = ''claude-user'', baseDir = path_join [homedir ps, ''.claude'', ''skills'']\<rparr>,
      \<lparr>label = ''gemini-user'', baseDir = path_join [homedir ps, ''.gemini'', ''skills'']\<rparr>]"
  by (simp add: getInstallTargets_def Let_def)

lemma getInstallTargets_empty: "getInstallTargets ps (Some []) = getInstallTargets ps None"
  by (simp add: getInstallTargets_def)

lemma codex_home_skills:
  assumes "isAbsolute (cwd ps)"
  shows "endsWith (path_join [(case CODEX_HOME ps of
                               None \<Rightarrow> path_join [homedir ps, ''.codex'']
                             | Some e \<Rightarrow> if e = [] then path_join [homedir ps, ''.codex'']
                                         else path_resolve (cwd ps) e), ''skills'']) ''/skills''"
proof -
  have a: "endsWith (path_join [path_join [homedir ps, ''.codex''], ''skills'']) ''/skills''"
    using path_join2_last_segment[OF plain_dot_dirs(1,2), of "homedir ps"] plain_dot_dirs(1)
    by (intro path_join_skills) auto
  have b: "endsWith (path_join [path_resolve (cwd ps) e, ''skills'']) ''/skills''" for e
    using path_resolve_isAbsolute[OF assms, of e] by (intro path_join_skills) auto
  show ?thesis using a b by (auto split: option.splits)
qed

lemma getInstallTargets_skills:
  assumes "isAbsolute (cwd ps)"
  shows "list_all (\<lambda>t. endsWith (baseDir t) ''/skills'') (getInstallTargets ps dest)"
proof (cases "dest = None \<or> dest = Some []")
  case True
  then have "getInstallTargets ps dest = getInstallTargets ps None"
    using getInstallTargets_empty by auto
  then show ?thesis
    unfolding getInstallTargets_user
    using codex_home_skills[OF assms] path_join3_skills[OF plain_dot_dirs(3,4), of "homedir ps"]
      path_join3_skills[OF plain_dot_dirs(5,6), of "homedir ps"]
    by simp
next
  case False
  then obtain d where d: "dest = Some d" "d \<noteq> []" by (cases dest) auto
  show ?thesis
    unfolding d(1) getInstallTargets_project[OF assms d(2)] Let_def
    using endsWith_append[of _ "''/skills''"] by (simp add: endsWith_def)
qed


text \<open>
  C5. The working directory is absolute, as \<open>process.cwd()\<close> is. When a project path is given
  (a non-empty string) the targets are exactly \<open>codex-project\<close>, \<open>claude-project\<close> and
  \<open>gemini-project\<close>, in this order, at \<open>/.codex/skills\<close>, \<open>/.claude/skills\<close> and
  \<open>/.gemini/skills\<close> under the resolved absolute project path. When none is given (or an
  empty one) they are exactly \<open>codex-user\<close>, \<open>claude-user\<close> and \<open>gemini-user\<close>: the first at
  \<open>skills\<close> under the resolved \<open>CODEX_HOME\<close> when that is set (and not empty) and under
  \<open>.codex\<close> of the home directory otherwise, the others at \<open>.claude/skills\<close> and
  \<open>.gemini/skills\<close> of the home directory. In every case there are three targets and each
  \<open>baseDir\<close> ends in \<open>/skills\<close>. The function is total: it has no failing result.
\<close>

theorem getInstallTargets_targets:
  assumes "isAbsolute (cwd ps)"
  shows "(d \<noteq> [] \<longrightarrow>
            getInstallTargets ps (Some d) =
              (let projectRoot = path_resolve (cwd ps) d;
                   base = (if projectRoot = ''/'' then [] else projectRoot)
               in [\<lparr>label = ''codex-project'', baseDir = base @ ''/.codex/skills''\<rparr>,
                   \<lparr>label = ''claude-project'', baseDir = base @ ''/.claude/skills''\<rparr>,
                   \<lparr>label = ''gemini-project'', baseDir = base @ ''/.gemini/skills''\<rparr>]))
       \<and> getInstallTargets ps None =
            [\<lparr>label = ''codex-user'',
              baseDir = path_join [(case CODEX_HOME ps of
                                      None \<Rightarrow> path_join [homedir ps, ''.codex'']
                                    | Some e \<Rightarrow> if e = [] then path_join [homedir ps, ''.codex'']
                                                else path_resolve (cwd ps) e), ''skills'']\<rparr>,
             \<lparr>label = ''claude-user'', baseDir = path_join [homedir ps, ''.claude'', ''skills'']\<rparr>,
             \<lparr>label = ''gemini-user'', baseDir = path_join [homedir ps, ''.gemini'', ''skills'']\<rparr>]
       \<and> getInstallTargets ps (Some []) = getInstallTargets ps None
       \<and> length (getInstallTargets ps dest) = 3
       \<and> list_all (\<lambda>t. endsWith (baseDir t) ''/skills'') (getInstallTargets ps dest)"
proof -
  have len: "length (getInstallTargets ps dest) = 3"
    by (simp add: getInstallTargets_def Let_def split: option.splits)
  show ?thesis
    using getInstallTargets_project[OF assms, of d] getInstallTargets_user[of ps]
      getInstallTargets_empty[of ps] len getInstallTargets_skills[OF assms, of dest]
    by blast
qed

text \<open>In the example runtime, with the project path \<open>proj\<close>, and with \<open>CODEX_HOME=/opt/codex\<close>.\<close>

theorem getInstallTargets_targets_witness:
  "getInstallTargets example_runtime (Some ''proj'') =
     [\<lparr>label = ''codex-project'', baseDir = ''/work/proj/.codex/skills''\<rparr>,
      \<lparr>label = ''claude-project'', baseDir = ''/work/proj/.claude/skills''\<rparr>,
      \<lparr>label = ''gemini-project'', baseDir = ''/work/proj/.gemini/skills''\<rparr>]
   \<and> getInstallTargets (example_runtime\<lparr>CODEX_HOME := Some ''/opt/codex''\<rparr>) None =
     [\<lparr>label = ''codex-user'', baseDir = ''/opt/codex/skills''\<rparr>,
      \<lparr>label = ''claude-user'', baseDir = ''/home/u/.claude/skills''\<rparr>,
      \<lparr>label = ''gemini-user'', baseDir = ''/home/u/.gemini/skills''\<rparr>]"
proof -
  let ?r = "example_runtime\<lparr>CODEX_HOME := Some ''/opt/codex''\<rparr>"
  have a: "isAbsolute (cwd example_runtime)" "isAbsolute (cwd ?r)"
    unfolding example_runtime_def by code_simp+
  have p: "path_resolve (cwd example_runtime) ''proj'' = ''/work/proj''"
    unfolding example_runtime_def by code_simp
  have u: "path_join [(case CODEX_HOME ?r of
                                      None \<Rightarrow> path_join [homedir ?r, ''.codex'']
                                    | Some e \<Rightarrow> if e = [] then path_join [homedir ?r, ''.codex'']
                                                else path_resolve (cwd ?r) e), ''skills''] = ''/opt/codex/skills''"
    "path_join [homedir ?r, ''.claude'', ''skills''] = ''/home/u/.claude/skills''"
    "path_join [homedir ?r, ''.gemini'', ''skills''] = ''/home/u/.gemini/skills''"
    unfolding example_runtime_def by code_simp+
  have "getInstallTargets example_runtime (Some ''proj'') =
     [\<lparr>label = ''codex-project'', baseDir = ''/work/proj/.codex/skills''\<rparr>,
      \<lparr>label = ''claude-project'', baseDir = ''/work/proj/.claude/skills''\<rparr>,
      \<lparr>label = ''gemini-project'', baseDir = ''/work/proj/.gemini/skills''\<rparr>]"
    using getInstallTargets_targets[OF a(1), of "''proj''" None] by (simp add: p Let_def)
  moreover have "getInstallTargets ?r None =
     [\<lparr>label = ''codex-user'', baseDir = ''/opt/codex/skills''\<rparr>,
      \<lparr>label = ''claude-user'', baseDir = ''/home/u/.claude/skills''\<rparr>,
      \<lparr>label = ''gemini-user'', baseDir = ''/home/u/.gemini/skills''\<rparr>]"
    using getInstallTargets_targets[OF a(2), of "''proj''" None] unfolding u by blast
  ultimately show ?thesis by blast
qed

section \<open>Effects: proofs\<close>

lemma adds_no_clone_iff:
  "adds_no_clone w w' = (\<exists>evs. trace w' = trace w @ evs \<and> list_all (\<lambda>ev. \<not> clone_event ev) evs)"
proof
  assume "adds_no_clone w w'"
  then have "trace w' = trace w @ drop (length (trace w)) (trace w')"
    "list_all (\<lambda>ev. \<not> clone_event ev) (drop (length (trace w)) (trace w'))"
    unfolding adds_no_clone_def by (metis append_take_drop_id, simp)
  then show "\<exists>evs. trace w' = trace w @ evs \<and> list_all (\<lambda>ev. \<not> clone_event ev) evs" by blast
next
  assume "\<exists>evs. trace w' = trace w @ evs \<and> list_all (\<lambda>ev. \<not> clone_event ev) evs"
  then show "adds_no_clone w w'" by (auto simp: adds_no_clone_def)
qed

lemma nc_refl: "adds_no_clone w w"
  by (simp add: adds_no_clone_def)

lemma nc_emit: "\<not> clone_event ev \<Longrightarrow> adds_no_clone w0 w \<Longrightarrow> adds_no_clone w0 (emit ev w)"
  by (auto simp: adds_no_clone_iff emit_def)

lemma nc_root: "adds_no_clone w0 (w\<lparr>root := t\<rparr>) = adds_no_clone w0 w"
  by (simp add: adds_no_clone_def)

lemma not_clone_events:
  "\<not> clone_event (Stat p)" "\<not> clone_event (Access p)" "\<not> clone_event (ReadFile p)"
  "\<not> clone_event (Mkdir p)" "\<not> clone_event (Rm p)" "\<not> clone_event (Cp p q)"
  "\<not> clone_event (Prompt p q)" "\<not> clone_event (Log p)" "\<not> clone_event (Warn p)"
  "\<not> clone_event Help"
  by (simp_all add: clone_event_def)

lemma fs_stat_nc: "adds_no_clone w0 w \<Longrightarrow> adds_no_clone w0 (snd (fs_stat ps p w))"
  by (simp add: fs_stat_def nc_emit not_clone_events)

lemma fs_readFile_nc: "adds_no_clone w0 w \<Longrightarrow> adds_no_clone w0 (snd (fs_readFile ps p w))"
  by (simp add: fs_readFile_def nc_emit not_clone_events)

lemma fs_mkdir_nc: "adds_no_clone w0 w \<Longrightarrow> adds_no_clone w0 (snd (fs_mkdir ps p w))"
  by (simp add: fs_mkdir_def nc_emit nc_root not_clone_events split: sum.splits)

lemma fs_rm_nc: "adds_no_clone w0 w \<Longrightarrow> adds_no_clone w0 (snd (fs_rm ps p w))"
  by (simp add: fs_rm_def nc_emit nc_root not_clone_events)

lemma pathExists_nc: "adds_no_clone w0 w \<Longrightarrow> adds_no_clone w0 (snd (pathExists ps p w))"
  by (simp add: pathExists_def nc_emit not_clone_events)

lemma fs_cp_nc: "adds_no_clone w0 w \<Longrightarrow> adds_no_clone w0 (snd (fs_cp ps p q w))"
  by (simp add: fs_cp_def Let_def nc_emit nc_root not_clone_events
           split: option.splits sum.splits prod.splits del: getStatsForCopy.simps)

lemma copyDir_nc: "adds_no_clone w0 w \<Longrightarrow> adds_no_clone w0 (snd (copyDir ps p q w))"
proof -
  assume a: "adds_no_clone w0 w"
  obtain r w1 where m: "fs_mkdir ps q w = (r, w1)" by (cases "fs_mkdir ps q w")
  have w1: "adds_no_clone w0 w1" using fs_mkdir_nc[OF a, of ps q] m by simp
  show ?thesis
    unfolding copyDir_def m using w1 fs_cp_nc[OF w1, of ps p q] by (cases r) simp_all
qed

lemma promptConflictAction_nc:
  "adds_no_clone w0 w \<Longrightarrow> adds_no_clone w0 (snd (promptConflictAction rt l d w))"
  by (simp add: promptConflictAction_def nc_emit not_clone_events)

lemma resolveSkillDirFromBase_nc:
  "adds_no_clone w0 w \<Longrightarrow> adds_no_clone w0 (snd (resolveSkillDirFromBase ps b s w))"
proof -
  assume a: "adds_no_clone w0 w"
  obtain r w1 where m: "fs_stat ps (path_join [if given s then path_join [b, or_empty s] else b, ''SKILL.md'']) w = (r, w1)"
    by (cases "fs_stat ps (path_join [if given s then path_join [b, or_empty s] else b, ''SKILL.md'']) w")
  have w1: "adds_no_clone w0 w1"
    using fs_stat_nc[OF a, of ps "path_join [if given s then path_join [b, or_empty s] else b, ''SKILL.md'']"] m
    by simp
  show ?thesis
    unfolding resolveSkillDirFromBase_def Let_def m using w1
    by (simp split: option.splits node.splits)
qed

lemma installTarget_nc:
  assumes a: "adds_no_clone w0 w"
  shows "adds_no_clone w0 (snd (installTarget rt f m dir name t w))"
proof -
  let ?d = "path_join [baseDir t, name]"
  obtain r1 w1 where s1: "fs_mkdir rt (baseDir t) w = (r1, w1)" by (cases "fs_mkdir rt (baseDir t) w")
  have w1: "adds_no_clone w0 w1" using fs_mkdir_nc[OF a, of rt "baseDir t"] s1 by simp
  obtain ex w2 where s2: "pathExists rt ?d w1 = (ex, w2)" by (cases "pathExists rt ?d w1")
  have w2: "adds_no_clone w0 w2" using pathExists_nc[OF w1, of rt ?d] s2 by simp
  obtain r3 w3 where s3: "(if ex \<and> \<not> f \<and> \<not> m then promptConflictAction rt (label t) ?d w2
                         else if ex \<and> m then (Inr Merge, w2) else (Inr Overwrite, w2)) = (r3, w3)"
    by (cases "(if ex \<and> \<not> f \<and> \<not> m then promptConflictAction rt (label t) ?d w2
                         else if ex \<and> m then (Inr Merge, w2) else (Inr Overwrite, w2))")
  have w3: "adds_no_clone w0 w3"
    using promptConflictAction_nc[OF w2, of rt "label t" ?d] w2 s3 by (auto split: if_splits)
  obtain r4 w4 where s4: "fs_rm rt ?d w3 = (r4, w4)" by (cases "fs_rm rt ?d w3")
  have w4: "adds_no_clone w0 w4" using fs_rm_nc[OF w3, of rt ?d] s4 by simp
  obtain r5 w5 where s5: "copyDir rt dir ?d w4 = (r5, w5)" by (cases "copyDir rt dir ?d w4")
  have w5: "adds_no_clone w0 w5" using copyDir_nc[OF w4, of rt dir ?d] s5 by simp
  obtain r6 w6 where s6: "copyDir rt dir ?d w3 = (r6, w6)" by (cases "copyDir rt dir ?d w3")
  have w6: "adds_no_clone w0 w6" using copyDir_nc[OF w3, of rt dir ?d] s6 by simp
  show ?thesis
    unfolding installTarget_def Let_def s1
    using w1 w2 w3 w4 w5 w6
    by (simp add: s2 s3 s4 s5 s6 nc_emit not_clone_events
             split: sum.splits ConflictAction.splits)
qed

lemma installTargets_nc:
  "adds_no_clone w0 w \<Longrightarrow> adds_no_clone w0 (snd (installTargets rt f m dir name ts w))"
proof (induction ts arbitrary: w)
  case Nil
  then show ?case by simp
next
  case (Cons t ts)
  obtain r w1 where s: "installTarget rt f m dir name t w = (r, w1)"
    by (cases "installTarget rt f m dir name t w")
  have w1: "adds_no_clone w0 w1" using installTarget_nc[OF Cons.prems, of rt f m dir name t] s by simp
  show ?case using s w1 Cons.IH[OF w1] by (cases r) simp_all
qed

lemma installFrom_nc:
  assumes a: "adds_no_clone w0 w"
  shows "adds_no_clone w0 (snd (installFrom rt opts dir w))"
proof -
  obtain r w1 where s: "fs_readFile rt (path_join [dir, ''SKILL.md'']) w = (r, w1)"
    by (cases "fs_readFile rt (path_join [dir, ''SKILL.md'']) w")
  have w1: "adds_no_clone w0 w1"
    using fs_readFile_nc[OF a, of rt "path_join [dir, ''SKILL.md'']"] s by simp
  show ?thesis
    unfolding installFrom_def Let_def s
    using w1 by (auto simp: nc_emit not_clone_events installTargets_nc split: sum.splits)
qed

lemma adds_no_clone_take:
  assumes "adds_no_clone w1 w2" "take k (trace w1) = xs" "k \<le> length (trace w1)"
  shows "take k (trace w2) = xs"
proof -
  obtain evs where "trace w2 = trace w1 @ evs" using assms(1) unfolding adds_no_clone_iff by blast
  then show ?thesis using assms(2,3) by simp
qed

lemma resolveSkillSource_local:
  assumes n: "parseRepoSpec (url_constructor rt) p = None"
    and r: "resolveSkillSource rt p sub branch w = (res, w1)"
  shows "adds_no_clone w w1"
    and "take (Suc (length (trace w))) (trace w1) = trace w @ [Stat p]"
    and "case res of Inl e \<Rightarrow> True | Inr x \<Rightarrow> cleanup x = None"
proof -
  have st: "adds_no_clone w (emit (Stat p) w)"
    by (simp add: nc_emit nc_refl not_clone_events)
  have d: "adds_no_clone w (snd (resolveSkillDirFromBase rt p (if given sub then sub else None) (emit (Stat p) w)))"
    using st by (rule resolveSkillDirFromBase_nc)
  show "adds_no_clone w w1"
    using r st d unfolding resolveSkillSource_def n
    by (auto simp: fs_stat_def split: option.splits node.splits prod.splits sum.splits if_splits)
  show "take (Suc (length (trace w))) (trace w1) = trace w @ [Stat p]"
    using resolveSkillSource_local_first_event[OF n, of w sub branch] r by simp
  show "case res of Inl e \<Rightarrow> True | Inr x \<Rightarrow> cleanup x = None"
    using r unfolding resolveSkillSource_def n
    by (auto simp: fs_stat_def split: option.splits node.splits prod.splits sum.splits if_splits)
qed

lemma runInstall_local:
  assumes "skillPath opts = Some input" "input \<noteq> []" "isRepoLike input"
    and n: "parseRepoSpec (url_constructor rt) input = None"
    and "\<not> (force opts \<and> merge opts)"
  shows "adds_no_clone w (snd (runInstall rt opts w))"
    and "take (Suc (length (trace w))) (trace (snd (runInstall rt opts w))) = trace w @ [Stat input]"
proof -
  obtain res w1 where r: "resolveSkillSource rt input (subdir opts) (ref opts) w = (res, w1)"
    by (cases "resolveSkillSource rt input (subdir opts) (ref opts) w")
  note l = resolveSkillSource_local[OF n r]
  have len: "Suc (length (trace w)) \<le> length (trace w1)"
    using l(2) by (metis length_append_singleton length_take min.cobounded1)
  have run: "runInstall rt opts w =
        (case res of
           Inl e \<Rightarrow> (Failed e, w1)
         | Inr x \<Rightarrow> (case fst (installFrom rt opts (skillDir x) w1) of Inl e \<Rightarrow> Failed e | Inr u \<Rightarrow> Done,
                     snd (installFrom rt opts (skillDir x) w1)))"
    unfolding runInstall_def using assms(1,2,3,5) r l(3)
    by (auto simp: given_def or_empty_def Let_def split: sum.splits prod.splits)
  have a: "adds_no_clone w (snd (runInstall rt opts w))"
    unfolding run using l(1) installFrom_nc[OF l(1)] by (cases res) simp_all
  have b: "take (Suc (length (trace w))) (trace (snd (runInstall rt opts w))) = trace w @ [Stat input]"
  proof (cases res)
    case (Inl e)
    then show ?thesis unfolding run using l(2) by simp
  next
    case (Inr x)
    have "adds_no_clone w1 (snd (installFrom rt opts (skillDir x) w1))"
      by (rule installFrom_nc[OF nc_refl])
    from adds_no_clone_take[OF this l(2) len] show ?thesis unfolding run using Inr by simp
  qed
  show "adds_no_clone w (snd (runInstall rt opts w))" by (rule a)
  show "take (Suc (length (trace w))) (trace (snd (runInstall rt opts w))) = trace w @ [Stat input]"
    by (rule b)
qed

text \<open>
  C10 (as amended). For an input that starts with \<open>http://\<close> or \<open>https://\<close> and that the URL
  constructor rejects, \<open>isRepoLike\<close> is true and \<open>parseRepoSpec\<close> is \<open>null\<close>. A run on it that is
  not stopped by the conflict of \<open>--force\<close> and \<open>--merge\<close> begins by a \<open>stat\<close> of the raw string
  (so the string was not resolved to an absolute path) and at no point creates a temporary
  directory or spawns \<open>git\<close>; when nothing exists at that path it fails with
  \<open>Skill path not found\<close>, having done nothing but that \<open>stat\<close>.
\<close>

theorem runInstall_unparseable_url:
  assumes "skillPath opts = Some input"
    and "startsWith input ''http://'' \<or> startsWith input ''https://''"
    and "url_constructor rt input = None"
  shows "isRepoLike input
       \<and> parseRepoSpec (url_constructor rt) input = None
       \<and> (\<not> (force opts \<and> merge opts) \<longrightarrow>
            take (Suc (length (trace w))) (trace (snd (runInstall rt opts w))) = trace w @ [Stat input]
            \<and> adds_no_clone w (snd (runInstall rt opts w)))
       \<and> (\<not> (force opts \<and> merge opts) \<and> fs_find rt (root w) input = None \<longrightarrow>
            runInstall rt opts w =
              (Failed (Error (''Skill path not found: '' @ input)), emit (Stat input) w))"
proof -
  have r: "isRepoLike input" using assms(2) by (rule isRepoLike_http)
  have n: "parseRepoSpec (url_constructor rt) input = None"
    using assms(2,3) by (rule parseRepoSpec_unparseable)
  have ne: "input \<noteq> []" using assms(2) by (auto simp: startsWith_def)
  have run: "runInstall rt opts w =
              (Failed (Error (''Skill path not found: '' @ input)), emit (Stat input) w)"
    if "\<not> (force opts \<and> merge opts)" "fs_find rt (root w) input = None"
    unfolding runInstall_def resolveSkillSource_def
    using that assms(1) r n ne by (simp add: given_def or_empty_def fs_stat_def)
  show ?thesis
    using r n runInstall_local[OF assms(1) ne r n, of w] run by blast
qed

text \<open>With the input \<open>https://\<close>, which names nothing in the example world.\<close>

theorem runInstall_unparseable_url_witness:
  "runInstall example_runtime (example_options\<lparr>skillPath := Some ''https://''\<rparr>) example_world =
     (Failed (Error (''Skill path not found: '' @ ''https://'')), emit (Stat ''https://'') example_world)"
proof -
  let ?o = "example_options\<lparr>skillPath := Some ''https://''\<rparr>"
  have a: "skillPath ?o = Some ''https://''" by simp
  have b: "startsWith ''https://'' ''http://'' \<or> startsWith ''https://'' ''https://''" by code_simp
  have c: "url_constructor example_runtime ''https://'' = None"
    unfolding example_runtime_def by code_simp
  have d: "\<not> (force ?o \<and> merge ?o)" by (simp add: example_options_def)
  have e: "fs_find example_runtime (root example_world) ''https://'' = None"
    unfolding example_runtime_def example_world_def by code_simp
  show ?thesis
    using runInstall_unparseable_url[OF a b c, of example_world] d e by blast
qed

end
